(* ===== verification/Prelude.thy ===== *)
theory Prelude
  imports Main "HOL-Library.AList"
begin

text \<open>
  Shared vocabulary of the development: Go maps as association lists in iteration order, Go
  values of type \<open>interface{}\<close>, errors and panics as values, the error-passing bind, the
  \<open>for\<close> loop that leaves at the first error, and the generic lemmas the components share.
\<close>

section \<open>Collections of facts\<close>

named_theorems result_simps \<open>inversion of results built with bind and loop\<close>
named_theorems gomap_simps \<open>facts on Go maps\<close>

section \<open>Go values\<close>

text \<open>
  A Go map is an association list: its keys are distinct, and the order of the list is the
  order in which one particular \<open>range\<close> visits the entries. Go leaves that order open, so a
  theorem about every list speaks about every order. A nil map is the empty list.
\<close>

type_synonym 'v gomap = "(string \<times> 'v) list"

definition wf_gomap :: "'v gomap \<Rightarrow> bool" where
  "wf_gomap m \<longleftrightarrow> distinct (map fst m)"

text \<open>
  The dynamic values of \<open>interface{}\<close> that YAML and JSON decoding produce. \<open>GMap\<close> is
  \<open>map[string]interface{}\<close>, \<open>GAnyMap\<close> is \<open>map[interface{}]interface{}\<close>, and a float is
  kept by its text, which the code never looks into.
\<close>

datatype gval =
    GNil
  | GBool bool
  | GInt int
  | GFloat string
  | GString string
  | GSlice "gval list"
  | GMap "(string \<times> gval) list"
  | GAnyMap "(gval \<times> gval) list"

type_synonym obj = "gval gomap"

section \<open>Errors and panics\<close>

text \<open>
  One constructor per error the sources build themselves, \<open>Wrapped\<close> for
  \<open>errors.Wrap\<close>, and \<open>External\<close> for an error value that comes from a library.
\<close>

datatype go_error =
    External string
  | Wrapped string go_error
  | FieldRequired string string
  | NonStringKey
  | MatchFailed nat nat
  | DuplicateName string string string
  | DuplicateExtraKey string
  | DuplicateRequiredKey string
  | InvalidReady string
  | InvalidMetaKind string
  | ConflictingValues string gval gval
  | NilResource string
  | InvalidObjectType
  | ReservedCondition string
  | InvalidEventType string
  | ResponseUpdate

datatype panic =
    NilDereference
  | NilMapWrite
  | BadTypeAssertion
  | IndexOutOfRange
  | NonPositiveTicker

datatype failure = Error go_error | Panic panic

section \<open>Results\<close>

fun bind_result :: "'e + 'a \<Rightarrow> ('a \<Rightarrow> 'e + 'b) \<Rightarrow> 'e + 'b" where
  "bind_result (Inl e) f = Inl e"
| "bind_result (Inr x) f = f x"

lemma bind_result_Inr_iff [result_simps]:
  "bind_result r f = Inr y \<longleftrightarrow> (\<exists>x. r = Inr x \<and> f x = Inr y)"
  by (cases r) auto

lemma bind_result_Inl_iff [result_simps]:
  "bind_result r f = Inl e \<longleftrightarrow> r = Inl e \<or> (\<exists>x. r = Inr x \<and> f x = Inl e)"
  by (cases r) auto

lemma bind_result_Inr [simp]: "bind_result r Inr = r" "bind_result r (\<lambda>x. Inr x) = r"
  by (cases r; simp)+

lemma bind_result_assoc:
  "bind_result (bind_result r f) g = bind_result r (\<lambda>x. bind_result (f x) g)"
  by (cases r) auto

lemma bind_result_cong [fundef_cong]:
  "r = r' \<Longrightarrow> (\<And>x. r' = Inr x \<Longrightarrow> f x = g x) \<Longrightarrow> bind_result r f = bind_result r' g"
  by (cases r') auto

text \<open>An \<open>error\<close> result seen as a failure of a function that may also panic.\<close>

fun lift_error :: "go_error + 'a \<Rightarrow> failure + 'a" where
  "lift_error (Inl e) = Inl (Error e)"
| "lift_error (Inr x) = Inr x"

lemma lift_error_iff [result_simps]:
  "lift_error r = Inr x \<longleftrightarrow> r = Inr x"
  "lift_error r = Inl (Error e) \<longleftrightarrow> r = Inl e"
  "lift_error r \<noteq> Inl (Panic p)"
  by (cases r; simp)+

lemma lift_error_Inl [result_simps]: "lift_error r = Inl f \<longleftrightarrow> (\<exists>e. r = Inl e \<and> f = Error e)"
  by (cases r) auto

fun wrap_error :: "string \<Rightarrow> go_error + 'a \<Rightarrow> go_error + 'a" where
  "wrap_error msg (Inl e) = Inl (Wrapped msg e)"
| "wrap_error msg (Inr x) = Inr x"

lemma wrap_error_iff [result_simps]:
  "wrap_error msg r = Inr x \<longleftrightarrow> r = Inr x"
  "wrap_error msg r = Inl e \<longleftrightarrow> (\<exists>e'. r = Inl e' \<and> e = Wrapped msg e')"
  by (cases r; auto)+

definition is_ok :: "'e + 'a \<Rightarrow> bool" where
  "is_ok r \<longleftrightarrow> (case r of Inl _ \<Rightarrow> False | Inr _ \<Rightarrow> True)"

lemma is_ok_simps [simp]: "is_ok (Inr x)" "\<not> is_ok (Inl e)"
  by (simp_all add: is_ok_def)

lemma is_ok_iff: "is_ok r \<longleftrightarrow> (\<exists>x. r = Inr x)"
  by (cases r) auto

lemma is_ok_bind: "is_ok (bind_result r f) \<longleftrightarrow> (case r of Inl _ \<Rightarrow> False | Inr x \<Rightarrow> is_ok (f x))"
  by (cases r) auto

lemma not_is_ok_bind: "\<not> is_ok r \<Longrightarrow> \<not> is_ok (bind_result r f)"
  by (cases r) auto

section \<open>The loop that stops at the first error\<close>

primrec loop :: "('s \<Rightarrow> 'a \<Rightarrow> 'e + 's) \<Rightarrow> 's \<Rightarrow> 'a list \<Rightarrow> 'e + 's" where
  "loop f s [] = Inr s"
| "loop f s (x # xs) = bind_result (f s x) (\<lambda>s'. loop f s' xs)"

lemma loop_append:
  "loop f s (xs @ ys) = bind_result (loop f s xs) (\<lambda>s'. loop f s' ys)"
  by (induction xs arbitrary: s) (simp_all add: bind_result_assoc)

lemma loop_total: "(\<And>s x. x \<in> set xs \<Longrightarrow> is_ok (f s x)) \<Longrightarrow> is_ok (loop f s xs)"
proof (induction xs arbitrary: s)
  case (Cons x xs)
  from Cons.prems [of x s] obtain t where "f s x = Inr t"
    by (auto simp: is_ok_iff)
  with Cons show ?case by simp
qed simp

lemma loop_cong:
  "(\<And>s x. x \<in> set xs \<Longrightarrow> f s x = g s x) \<Longrightarrow> loop f s xs = loop g s xs"
  by (induction xs arbitrary: s) (auto intro: bind_result_cong)

text \<open>
  The contract every such loop of the code is used under: one iteration keeps an invariant
  and never forgets what was established for the items already visited.
\<close>

locale loop_contract =
  fixes step :: "'s \<Rightarrow> 'a \<Rightarrow> 'e + 's"
    and inv :: "'s \<Rightarrow> bool"
    and grows :: "'s \<Rightarrow> 's \<Rightarrow> bool"
    and does :: "'a \<Rightarrow> 's \<Rightarrow> bool"
  assumes step_inv: "inv s \<Longrightarrow> step s x = Inr s' \<Longrightarrow> inv s'"
    and step_grows: "inv s \<Longrightarrow> step s x = Inr s' \<Longrightarrow> grows s s'"
    and step_done: "inv s \<Longrightarrow> step s x = Inr s' \<Longrightarrow> does x s'"
    and grows_refl: "grows s s"
    and grows_trans: "grows s s' \<Longrightarrow> grows s' s'' \<Longrightarrow> grows s s''"
    and done_grows: "does x s \<Longrightarrow> grows s s' \<Longrightarrow> does x s'"
begin

lemma loop_inv: "loop step s xs = Inr s' \<Longrightarrow> inv s \<Longrightarrow> inv s'"
  by (induction xs arbitrary: s) (auto simp: result_simps dest: step_inv)

lemma loop_grows: "loop step s xs = Inr s' \<Longrightarrow> inv s \<Longrightarrow> grows s s'"
  by (induction xs arbitrary: s)
     (auto simp: result_simps intro: grows_refl grows_trans step_grows step_inv)

lemma loop_done: "loop step s xs = Inr s' \<Longrightarrow> inv s \<Longrightarrow> x \<in> set xs \<Longrightarrow> does x s'"
proof (induction xs arbitrary: s)
  case (Cons y ys)
  from Cons.prems(1) obtain t where t: "step s y = Inr t" "loop step t ys = Inr s'"
    by (auto simp: result_simps)
  have inv: "inv t" using Cons.prems(2) t(1) by (rule step_inv)
  have grows: "grows t s'" using t(2) inv by (rule loop_grows)
  show ?case
    using Cons t inv grows by (auto intro: done_grows step_done)
qed simp

end

text \<open>The same contract for a loop whose iterations never fail in a forbidden way (a panic).\<close>

locale safe_loop = loop_contract +
  fixes bad :: "'e \<Rightarrow> bool"
  assumes step_safe: "inv s \<Longrightarrow> step s x = Inl e \<Longrightarrow> \<not> bad e"
begin

lemma loop_safe: "loop step s xs = Inl e \<Longrightarrow> inv s \<Longrightarrow> \<not> bad e"
  by (induction xs arbitrary: s) (auto simp: result_simps dest: step_inv step_safe)

end

definition is_panic :: "failure \<Rightarrow> bool" where
  "is_panic f \<longleftrightarrow> (\<exists>p. f = Panic p)"

lemma is_panic_simps [simp]: "is_panic (Panic p)" "\<not> is_panic (Error e)"
  by (simp_all add: is_panic_def)

lemma length_filter_all: "length (filter P xs) = length xs \<longleftrightarrow> (\<forall>x \<in> set xs. P x)"
proof (induction xs)
  case (Cons x xs)
  have "length (filter P xs) \<noteq> Suc (length xs)" using length_filter_le [of P xs] by linarith
  with Cons show ?case by auto
qed simp

section \<open>Go maps\<close>

lemma map_of_update [gomap_simps]:
  "map_of (AList.update k v m) = (map_of m)(k \<mapsto> v)"
  by (rule update_conv')

lemma wf_gomap_update [gomap_simps, intro]:
  "wf_gomap m \<Longrightarrow> wf_gomap (AList.update k v m)"
  unfolding wf_gomap_def by (rule distinct_update)

lemma wf_gomap_Nil [simp]: "wf_gomap []"
  by (simp add: wf_gomap_def)

lemma wf_gomap_Cons [simp]:
  "wf_gomap ((k, v) # m) \<longleftrightarrow> map_of m k = None \<and> wf_gomap m"
  by (auto simp: wf_gomap_def map_of_eq_None_iff)

lemma dom_map_of_update [gomap_simps]:
  "dom (map_of (AList.update k v m)) = insert k (dom (map_of m))"
  by (simp add: gomap_simps)

lemma wf_gomap_update_existing:
  "map_of m k \<noteq> None \<Longrightarrow> wf_gomap (AList.update k v m) = wf_gomap m"
  by (auto simp: wf_gomap_def update_keys map_of_eq_None_iff)

text \<open>Copying every entry of one map into another, as a \<open>range\<close> with an assignment does.\<close>

lemma find_distinct:
  "distinct (map g xs) \<Longrightarrow> x \<in> set xs \<Longrightarrow> g x = k \<Longrightarrow> find (\<lambda>y. g y = k) xs = Some x"
  by (induction xs) auto

definition overlay :: "'v gomap \<Rightarrow> 'v gomap \<Rightarrow> 'v gomap" where
  "overlay into new = fold (\<lambda>(k, v). AList.update k v) new into"

lemma map_of_overlay_rev:
  "map_of (overlay into new) = map_of into ++ map_of (rev new)"
proof (induction new arbitrary: into)
  case (Cons e new)
  obtain k v where "e = (k, v)" by (cases e)
  then show ?case
    using Cons.IH [of "AList.update k v into"]
    by (simp add: overlay_def gomap_simps fun_eq_iff map_add_def split: option.split)
qed (simp add: overlay_def)

lemma map_of_rev_eq: "distinct (map fst m) \<Longrightarrow> map_of (rev m) = map_of m"
  by (subst map_of_inject_set) (simp_all flip: rev_map)

lemma map_of_overlay [gomap_simps]:
  "wf_gomap new \<Longrightarrow> map_of (overlay into new) = map_of into ++ map_of new"
  by (simp add: map_of_overlay_rev wf_gomap_def map_of_rev_eq)

lemma wf_gomap_overlay [gomap_simps, intro]:
  "wf_gomap into \<Longrightarrow> wf_gomap (overlay into new)"
  by (induction new arbitrary: into) (auto simp: overlay_def)

end
