(* ===== verification/Selectors.thy ===== *)
theory Selectors
  imports Prelude
begin

text \<open>
  \<open>pkg/resource/extraresources.go\<close> and \<open>pkg/resource/requiredresources.go\<close>: the two kinds of
  resource requirements a program may emit and their conversion to the selector of the function
  protocol. Both conversions keep one contract, stated as the locale \<open>requirement\<close>.
\<close>

section \<open>Requirements and selectors\<close>

record ExtraResourcesRequirement =
  er_APIVersion :: string
  er_Kind :: string
  er_MatchLabels :: "string gomap"
  er_MatchName :: string
  er_MatchNamespace :: string

record RequiredResourcesRequirement =
  rr_APIVersion :: string
  rr_Kind :: string
  rr_MatchLabels :: "string gomap"
  rr_Name :: string
  rr_Namespace :: string

text \<open>The selector of the protocol: a \<open>oneof\<close> for the match and an optional namespace.\<close>

datatype selector_match = MatchLabels "string gomap" | MatchName string

record ResourceSelector =
  sel_ApiVersion :: string
  sel_Kind :: string
  sel_Match :: selector_match
  sel_Namespace :: "string option"

section \<open>ToResourceSelector\<close>

definition Extra_ToResourceSelector :: "ExtraResourcesRequirement \<Rightarrow> ResourceSelector" where
  "Extra_ToResourceSelector e =
     (let namespace = (if er_MatchNamespace e \<noteq> [] then Some (er_MatchNamespace e) else None)
      in if er_MatchName e = []
         then \<lparr>sel_ApiVersion = er_APIVersion e, sel_Kind = er_Kind e,
               sel_Match = MatchLabels (er_MatchLabels e), sel_Namespace = namespace\<rparr>
         else \<lparr>sel_ApiVersion = er_APIVersion e, sel_Kind = er_Kind e,
               sel_Match = MatchName (er_MatchName e), sel_Namespace = namespace\<rparr>)"

definition Required_ToResourceSelector :: "RequiredResourcesRequirement \<Rightarrow> ResourceSelector" where
  "Required_ToResourceSelector e =
     (let namespace = (if rr_Namespace e \<noteq> [] then Some (rr_Namespace e) else None)
      in if rr_Name e = []
         then \<lparr>sel_ApiVersion = rr_APIVersion e, sel_Kind = rr_Kind e,
               sel_Match = MatchLabels (rr_MatchLabels e), sel_Namespace = namespace\<rparr>
         else \<lparr>sel_ApiVersion = rr_APIVersion e, sel_Kind = rr_Kind e,
               sel_Match = MatchName (rr_Name e), sel_Namespace = namespace\<rparr>)"

section \<open>The contract of both conversions\<close>

locale requirement =
  fixes to_selector :: "'r \<Rightarrow> ResourceSelector"
    and api :: "'r \<Rightarrow> string" and kind :: "'r \<Rightarrow> string"
    and labels :: "'r \<Rightarrow> string gomap" and name :: "'r \<Rightarrow> string" and namespace :: "'r \<Rightarrow> string"
  assumes sel_api: "sel_ApiVersion (to_selector r) = api r"
    and sel_kind: "sel_Kind (to_selector r) = kind r"
    and sel_namespace: "(case sel_Namespace (to_selector r) of None \<Rightarrow> [] | Some n \<Rightarrow> n) = namespace r"
    and sel_namespace_nonempty: "sel_Namespace (to_selector r) \<noteq> Some []"
    and sel_match: "sel_Match (to_selector r) =
          (if name r = [] then MatchLabels (labels r) else MatchName (name r))"
begin

lemma namespace_iff: "sel_Namespace (to_selector r) = Some ns \<longleftrightarrow> ns \<noteq> [] \<and> ns = namespace r"
  using sel_namespace [of r] sel_namespace_nonempty [of r] by (auto split: option.splits)

lemma match_name_iff: "sel_Match (to_selector r) = MatchName n \<longleftrightarrow> n \<noteq> [] \<and> n = name r"
  by (auto simp: sel_match)

lemma match_labels_iff: "sel_Match (to_selector r) = MatchLabels ls \<longleftrightarrow> name r = [] \<and> ls = labels r"
  by (auto simp: sel_match)

lemma selector_eqI:
  assumes "api r = a" "kind r = k" "namespace r = ns"
    and "sel_ApiVersion s = a" "sel_Kind s = k"
    and "(case sel_Namespace s of None \<Rightarrow> [] | Some n \<Rightarrow> n) = ns" "sel_Namespace s \<noteq> Some []"
    and "sel_Match s = (if name r = [] then MatchLabels (labels r) else MatchName (name r))"
  shows "to_selector r = s"
proof -
  have "sel_Namespace (to_selector r) = sel_Namespace s"
    using assms(3,6,7) sel_namespace [of r] sel_namespace_nonempty [of r]
    by (auto split: option.splits)
  then show ?thesis
    using assms sel_api [of r] sel_kind [of r] sel_match [of r]
    by (intro ResourceSelector.equality) simp_all
qed

end

interpretation extra: requirement Extra_ToResourceSelector er_APIVersion er_Kind er_MatchLabels
    er_MatchName er_MatchNamespace
  by unfold_locales (auto simp: Extra_ToResourceSelector_def Let_def)

interpretation required: requirement Required_ToResourceSelector rr_APIVersion rr_Kind
    rr_MatchLabels rr_Name rr_Namespace
  by unfold_locales (auto simp: Required_ToResourceSelector_def Let_def)

definition as_required :: "ExtraResourcesRequirement \<Rightarrow> RequiredResourcesRequirement" where
  "as_required e = \<lparr>rr_APIVersion = er_APIVersion e, rr_Kind = er_Kind e,
     rr_MatchLabels = er_MatchLabels e, rr_Name = er_MatchName e, rr_Namespace = er_MatchNamespace e\<rparr>"

definition example_requirement :: ExtraResourcesRequirement where
  "example_requirement = \<lparr>er_APIVersion = ''v1'', er_Kind = ''ConfigMap'',
     er_MatchLabels = [(''app'', ''web'')], er_MatchName = ''cm'', er_MatchNamespace = []\<rparr>"

section \<open>Properties\<close>

text \<open>C33: the selector of an extra-resources requirement has the requirement's version and kind,
  its namespace exactly when that is not empty, and matches by the name when there is one and by
  the labels otherwise: the labels of a requirement with a name are dropped, and they are all that
  is, as two requirements have the same selector exactly when they agree in everything but labels
  beside a name. A required-resources requirement with the same fields is converted to the same
  selector.\<close>

theorem ToResourceSelector_correct:
  "sel_ApiVersion (Extra_ToResourceSelector e) = er_APIVersion e \<and>
   sel_Kind (Extra_ToResourceSelector e) = er_Kind e \<and>
   (\<forall>ns. sel_Namespace (Extra_ToResourceSelector e) = Some ns \<longleftrightarrow> ns \<noteq> [] \<and> ns = er_MatchNamespace e) \<and>
   (\<forall>n. sel_Match (Extra_ToResourceSelector e) = MatchName n \<longleftrightarrow> n \<noteq> [] \<and> n = er_MatchName e) \<and>
   (\<forall>ls. sel_Match (Extra_ToResourceSelector e) = MatchLabels ls \<longleftrightarrow>
      er_MatchName e = [] \<and> ls = er_MatchLabels e) \<and>
   (Extra_ToResourceSelector e = Extra_ToResourceSelector f \<longleftrightarrow>
      (\<exists>ls. f = e\<lparr>er_MatchLabels := ls\<rparr> \<and> (er_MatchName e = [] \<longrightarrow> ls = er_MatchLabels e))) \<and>
   Required_ToResourceSelector (as_required e) = Extra_ToResourceSelector e"
proof (intro conjI)
  show "Required_ToResourceSelector (as_required e) = Extra_ToResourceSelector e"
    by (rule required.selector_eqI [OF refl refl refl])
       (simp_all only: extra.sel_api extra.sel_kind extra.sel_namespace extra.sel_namespace_nonempty
          extra.sel_match as_required_def RequiredResourcesRequirement.select_convs
          not_False_eq_True)
  show "Extra_ToResourceSelector e = Extra_ToResourceSelector f \<longleftrightarrow>
      (\<exists>ls. f = e\<lparr>er_MatchLabels := ls\<rparr> \<and> (er_MatchName e = [] \<longrightarrow> ls = er_MatchLabels e))"
    (is "?same \<longleftrightarrow> ?but_labels")
  proof
    assume same: ?same
    have "er_APIVersion f = er_APIVersion e" "er_Kind f = er_Kind e"
      "er_MatchNamespace f = er_MatchNamespace e" "er_MatchName f = er_MatchName e"
      "er_MatchName e = [] \<Longrightarrow> er_MatchLabels f = er_MatchLabels e"
      using arg_cong [OF same, of sel_ApiVersion] arg_cong [OF same, of sel_Kind]
        arg_cong [OF same, of "\<lambda>s. case sel_Namespace s of None \<Rightarrow> [] | Some n \<Rightarrow> n"]
        arg_cong [OF same, of sel_Match]
      by (simp_all only: extra.sel_api extra.sel_kind extra.sel_namespace)
         (auto simp: extra.sel_match split: if_splits)
    then show ?but_labels
      by (intro exI [of _ "er_MatchLabels f"])
         (auto intro: ExtraResourcesRequirement.equality)
  next
    assume ?but_labels
    then show ?same by (auto simp: Extra_ToResourceSelector_def)
  qed
qed (simp_all only: extra.sel_api extra.sel_kind extra.namespace_iff extra.match_name_iff
    extra.match_labels_iff simp_thms)

theorem ToResourceSelector_correct_witness:
  "Extra_ToResourceSelector (example_requirement\<lparr>er_MatchLabels := []\<rparr>) =
     Extra_ToResourceSelector example_requirement \<and>
   sel_Match (Extra_ToResourceSelector example_requirement) = MatchName ''cm'' \<and>
   sel_Namespace (Extra_ToResourceSelector example_requirement) = None"
proof -
  note correct = ToResourceSelector_correct [of example_requirement "example_requirement\<lparr>er_MatchLabels := []\<rparr>"]
  have "er_MatchName example_requirement = ''cm''" "er_MatchNamespace example_requirement = []"
    by (simp_all add: example_requirement_def)
  with correct show ?thesis by (metis not_None_eq list.distinct(1))
qed

end
