(* ===== verification/Response.thy ===== *)
theory Response
  imports Selectors
begin

text \<open>
  \<open>pkg/resource/conditions.go\<close> and \<open>pkg/resource/events.go\<close>: the conditions and events a
  program emits, and the loops \<open>SetConditions\<close> and \<open>SetEvents\<close> that copy them into the
  response. \<open>response.Fatal\<close> and \<open>IsSystemConditionType\<close> belong to libraries and are parameters.
\<close>

section \<open>The response\<close>

datatype Status =
    STATUS_CONDITION_TRUE
  | STATUS_CONDITION_FALSE
  | STATUS_CONDITION_UNKNOWN

datatype Severity = SEVERITY_FATAL | SEVERITY_WARNING | SEVERITY_NORMAL

datatype fn_target = TARGET_COMPOSITE | TARGET_COMPOSITE_AND_CLAIM

record FnCondition =
  c_Type :: string
  c_Status :: Status
  c_Reason :: string
  c_Message :: "string option"
  c_Target :: fn_target

record FnResult =
  r_Severity :: Severity
  r_Message :: string
  r_Reason :: "string option"
  r_Target :: "fn_target option"

text \<open>The response of the protocol; the desired state it carries stays opaque.\<close>

record 'd Response =
  Conditions :: "FnCondition list"
  Results :: "FnResult list"
  Requirements :: "(ResourceSelector gomap \<times> ResourceSelector gomap) option"
  Context :: "gval gomap"
  Desired :: 'd

section \<open>Conditions\<close>

type_synonym BindingTarget = string

definition TargetComposite :: BindingTarget where
  "TargetComposite = ''Composite''"

definition TargetCompositeAndClaim :: BindingTarget where
  "TargetCompositeAndClaim = ''CompositeAndClaim''"

record Condition =
  cond_Type :: string
  cond_Status :: string
  cond_Reason :: string
  cond_Message :: "string option"

record ConditionResource =
  cr_Target :: "BindingTarget option"
  cr_Force :: "bool option"
  cr_Condition :: Condition

definition transformTarget :: "BindingTarget option \<Rightarrow> fn_target" where
  "transformTarget t =
     (let target = (case t of None \<Rightarrow> TargetComposite | Some b \<Rightarrow> b)
      in if target = TargetCompositeAndClaim then TARGET_COMPOSITE_AND_CLAIM
         else TARGET_COMPOSITE)"

definition transformCondition :: "ConditionResource \<Rightarrow> FnCondition" where
  "transformCondition cs =
     \<lparr>c_Type = cond_Type (cr_Condition cs),
      c_Status =
        (if cond_Status (cr_Condition cs) = ''True'' then STATUS_CONDITION_TRUE
         else if cond_Status (cr_Condition cs) = ''False'' then STATUS_CONDITION_FALSE
         else STATUS_CONDITION_UNKNOWN),
      c_Reason = cond_Reason (cr_Condition cs),
      c_Message = cond_Message (cr_Condition cs),
      c_Target = transformTarget (cr_Target cs)\<rparr>"

text \<open>
  The loop of \<open>SetConditions\<close>. The state is the response and the map \<open>conditionsSet\<close>; the
  result is the response as the loop left it and the error it returned, if any.
\<close>

fun set_conditions_loop ::
  "(string \<Rightarrow> bool) \<Rightarrow> ('d Response \<Rightarrow> go_error \<Rightarrow> 'd Response) \<Rightarrow> 'd Response \<Rightarrow>
   (string \<Rightarrow> bool) \<Rightarrow> ConditionResource list \<Rightarrow> 'd Response \<times> go_error option"
where
  "set_conditions_loop IsSystem Fatal rsp conditionsSet [] = (rsp, None)"
| "set_conditions_loop IsSystem Fatal rsp conditionsSet (cs # cr) =
     (let type = cond_Type (cr_Condition cs)
      in if IsSystem type then
           (Fatal rsp (ReservedCondition type), Some ResponseUpdate)
         else if conditionsSet type \<and> (cr_Force cs = None \<or> cr_Force cs = Some False) then
           set_conditions_loop IsSystem Fatal rsp conditionsSet cr
         else
           set_conditions_loop IsSystem Fatal
             (rsp\<lparr>Conditions := Conditions rsp @ [transformCondition cs]\<rparr>)
             (conditionsSet(type := True)) cr)"

definition SetConditions ::
  "(string \<Rightarrow> bool) \<Rightarrow> ('d Response \<Rightarrow> go_error \<Rightarrow> 'd Response) \<Rightarrow> 'd Response \<Rightarrow>
   ConditionResource list \<Rightarrow> 'd Response \<times> go_error option"
where
  "SetConditions IsSystem Fatal rsp cr = set_conditions_loop IsSystem Fatal rsp (\<lambda>_. False) cr"

section \<open>Events\<close>

type_synonym EventType = string

definition EventTypeNormal :: EventType where
  "EventTypeNormal = ''Normal''"

definition EventTypeWarning :: EventType where
  "EventTypeWarning = ''Warning''"

record Event =
  ev_Type :: "EventType option"
  ev_Reason :: "string option"
  ev_Message :: string

record CreateEvent =
  ce_Target :: "BindingTarget option"
  ce_Event :: Event

definition transformEvent :: "CreateEvent \<Rightarrow> go_error + FnResult" where
  "transformEvent ec =
     (let deref = (case ev_Type (ce_Event ec) of None \<Rightarrow> EventTypeNormal | Some t \<Rightarrow> t);
          result = (\<lambda>severity. \<lparr>r_Severity = severity, r_Message = ev_Message (ce_Event ec),
             r_Reason = ev_Reason (ce_Event ec), r_Target = Some (transformTarget (ce_Target ec))\<rparr>)
      in if deref = EventTypeNormal then Inr (result SEVERITY_NORMAL)
         else if deref = EventTypeWarning then Inr (result SEVERITY_WARNING)
         else Inl (InvalidEventType deref))"

fun SetEvents ::
  "('d Response \<Rightarrow> go_error \<Rightarrow> 'd Response) \<Rightarrow> 'd Response \<Rightarrow> CreateEvent list \<Rightarrow>
   'd Response \<times> go_error option"
where
  "SetEvents Fatal rsp [] = (rsp, None)"
| "SetEvents Fatal rsp (er # ers) =
     (case transformEvent er of
        Inl e \<Rightarrow> (Fatal rsp e, Some ResponseUpdate)
      | Inr r \<Rightarrow> SetEvents Fatal (rsp\<lparr>Results := Results rsp @ [r]\<rparr>) ers)"

section \<open>What the loops compute\<close>

definition forced :: "ConditionResource \<Rightarrow> bool" where
  "forced cs \<longleftrightarrow> cr_Force cs = Some True"

definition type_of :: "ConditionResource \<Rightarrow> string" where
  "type_of cs = cond_Type (cr_Condition cs)"

lemma not_forced_iff: "cr_Force cs = None \<or> cr_Force cs = Some False \<longleftrightarrow> \<not> forced cs"
  by (cases "cr_Force cs") (auto simp: forced_def)

text \<open>The entries that are set: the forced ones, and the first of every type.\<close>

definition kept :: "string set \<Rightarrow> ConditionResource list \<Rightarrow> ConditionResource list" where
  "kept seen cr =
     nths cr {i. i < length cr \<and>
                 (forced (cr ! i) \<or> type_of (cr ! i) \<notin> seen \<union> type_of ` set (take i cr))}"

lemma kept_Nil [simp]: "kept seen [] = []"
  by (simp add: kept_def)

lemma kept_Cons:
  "kept seen (cs # cr) =
     (if forced cs \<or> type_of cs \<notin> seen then [cs] else []) @ kept (insert (type_of cs) seen) cr"
proof -
  have "{j. Suc j < length (cs # cr) \<and> (forced ((cs # cr) ! Suc j) \<or>
           type_of ((cs # cr) ! Suc j) \<notin> seen \<union> type_of ` set (take (Suc j) (cs # cr)))} =
        {i. i < length cr \<and> (forced (cr ! i) \<or>
           type_of (cr ! i) \<notin> insert (type_of cs) seen \<union> type_of ` set (take i cr))}"
    by auto
  then show ?thesis
    by (auto simp: kept_def nths_Cons intro!: arg_cong [where f = "nths cr"])
qed

definition reserved :: "(string \<Rightarrow> bool) \<Rightarrow> ConditionResource \<Rightarrow> bool" where
  "reserved IsSystem cs \<longleftrightarrow> IsSystem (type_of cs)"

lemma set_conditions_loop_good:
  assumes "\<forall>cs \<in> set cr. \<not> reserved IsSystem cs"
  shows "set_conditions_loop IsSystem Fatal rsp (\<lambda>t. t \<in> seen) (cr @ rest) =
     set_conditions_loop IsSystem Fatal
       (rsp\<lparr>Conditions := Conditions rsp @ map transformCondition (kept seen cr)\<rparr>)
       (\<lambda>t. t \<in> seen \<union> type_of ` set cr) rest"
  using assms
proof (induction cr arbitrary: rsp seen)
  case (Cons cs cr)
  have upd: "(\<lambda>t. t \<in> seen)(type_of cs := True) = (\<lambda>t. t \<in> insert (type_of cs) seen)"
    by (auto simp: fun_eq_iff)
  show ?case
  proof (cases "type_of cs \<in> seen \<and> \<not> forced cs")
    case True
    then have "insert (type_of cs) seen = seen" by auto
    with True Cons show ?thesis
      by (simp add: Let_def reserved_def not_forced_iff kept_Cons insert_absorb flip: type_of_def)
  next
    case False
    then show ?thesis
      using Cons.IH [of _ "insert (type_of cs) seen"] Cons.prems
      by (auto simp: Let_def reserved_def not_forced_iff upd kept_Cons simp flip: type_of_def)
  qed
qed simp

lemma takeWhile_split:
  "\<exists>x \<in> set xs. P x \<Longrightarrow>
   \<exists>y rest. xs = takeWhile (\<lambda>x. \<not> P x) xs @ y # rest \<and> P y \<and> find P xs = Some y"
  by (induction xs) auto

lemma SetEvents_good:
  "list_all2 (\<lambda>er r. transformEvent er = Inr r) ers rs \<Longrightarrow>
   SetEvents Fatal rsp (ers @ rest) = SetEvents Fatal (rsp\<lparr>Results := Results rsp @ rs\<rparr>) rest"
  by (induction arbitrary: rsp rule: list_all2_induct) simp_all

lemma transformEvent_error:
  "transformEvent er = Inl e \<longleftrightarrow>
     (\<exists>t. ev_Type (ce_Event er) = Some t \<and> t \<noteq> EventTypeNormal \<and> t \<noteq> EventTypeWarning \<and>
          e = InvalidEventType t)"
  by (auto simp: transformEvent_def Let_def EventTypeNormal_def split: option.splits)

lemma transformEvent_fields:
  assumes "transformEvent er = Inr r"
  shows "r_Message r = ev_Message (ce_Event er) \<and> r_Reason r = ev_Reason (ce_Event er) \<and>
    r_Severity r = (if ev_Type (ce_Event er) = Some ''Warning'' then SEVERITY_WARNING
      else SEVERITY_NORMAL) \<and>
    r_Target r = Some (if ce_Target er = Some ''CompositeAndClaim'' then TARGET_COMPOSITE_AND_CLAIM
      else TARGET_COMPOSITE)"
  using assms
  by (auto simp: transformEvent_def transformTarget_def EventTypeNormal_def EventTypeWarning_def
      TargetComposite_def TargetCompositeAndClaim_def Let_def split: option.splits if_splits)

lemma transformEvent_all:
  assumes "\<forall>er \<in> set ers. ev_Type (ce_Event er) \<in> {None, Some ''Normal'', Some ''Warning''}"
  obtains rs where "list_all2 (\<lambda>er r. transformEvent er = Inr r) ers rs"
proof -
  have "\<exists>rs. list_all2 (\<lambda>er r. transformEvent er = Inr r) ers rs"
    using assms
  proof (induction ers)
    case (Cons er ers)
    have "\<exists>r. transformEvent er = Inr r"
    proof (cases "transformEvent er")
      case (Inl e)
      with Cons.prems show ?thesis
        by (auto simp: transformEvent_error EventTypeNormal_def EventTypeWarning_def)
    qed blast
    with Cons show ?case by (auto simp: list_all2_Cons1)
  qed (intro exI [of _ "[]"], simp)
  with that show thesis by blast
qed

lemma kept_types:
  assumes "\<forall>cs \<in> set cr. \<not> forced cs"
  shows "type_of ` set (kept seen cr) = type_of ` set cr - seen"
  using assms
proof (induction cr arbitrary: seen)
  case (Cons c cr)
  then have "type_of ` set (kept seen (c # cr)) =
      (if type_of c \<in> seen then {} else {type_of c}) \<union> (type_of ` set cr - insert (type_of c) seen)"
    by (simp add: kept_Cons)
  then show ?case by auto
qed simp

lemma kept_distinct:
  assumes "\<forall>cs \<in> set cr. \<not> forced cs"
  shows "distinct (map type_of (kept seen cr))"
  using assms
proof (induction cr arbitrary: seen)
  case (Cons c cr)
  then have "distinct (map type_of (kept (insert (type_of c) seen) cr))" by simp
  moreover have "type_of c \<notin> type_of ` set (kept (insert (type_of c) seen) cr)"
    using Cons.prems kept_types [of cr "insert (type_of c) seen"] by simp
  ultimately show ?case using Cons.prems by (simp add: kept_Cons)
qed simp

lemma kept_first:
  assumes "\<forall>cs \<in> set cr. \<not> forced cs" and "cs \<in> set (kept seen cr)"
  shows "find (\<lambda>x. type_of x = type_of cs) cr = Some cs"
  using assms
proof (induction cr arbitrary: seen)
  case (Cons c cr)
  show ?case
  proof (cases "cs \<in> set (kept (insert (type_of c) seen) cr)")
    case True
    then have "type_of cs \<noteq> type_of c"
      using Cons.prems(1) kept_types [of cr "insert (type_of c) seen"] by auto
    with Cons.IH [OF _ True] Cons.prems(1) show ?thesis by simp
  next
    case False
    with Cons.prems(2) show ?thesis by (simp add: kept_Cons split: if_splits)
  qed
qed simp

lemma kept_snoc:
  "kept seen (cr @ [cs]) =
     kept seen cr @ (if forced cs \<or> type_of cs \<notin> seen \<union> type_of ` set cr then [cs] else [])"
  by (induction cr arbitrary: seen) (auto simp: kept_Cons)

lemma SetConditions_eq:
  "SetConditions IsSystem Fatal rsp cr =
     (case find (reserved IsSystem) cr of
        None \<Rightarrow> (rsp\<lparr>Conditions := Conditions rsp @ map transformCondition (kept {} cr)\<rparr>, None)
      | Some bad \<Rightarrow>
          (Fatal (rsp\<lparr>Conditions := Conditions rsp @ map transformCondition
                    (kept {} (takeWhile (\<lambda>cs. \<not> reserved IsSystem cs) cr))\<rparr>)
                 (ReservedCondition (type_of bad)),
           Some ResponseUpdate))"
proof (cases "\<exists>cs \<in> set cr. reserved IsSystem cs")
  case True
  then obtain bad rest where b: "reserved IsSystem bad" "find (reserved IsSystem) cr = Some bad"
    "cr = takeWhile (\<lambda>cs. \<not> reserved IsSystem cs) cr @ bad # rest"
    using takeWhile_split by metis
  have "\<forall>cs \<in> set (takeWhile (\<lambda>cs. \<not> reserved IsSystem cs) cr). \<not> reserved IsSystem cs"
    by (auto dest: set_takeWhileD)
  from set_conditions_loop_good [OF this, of Fatal rsp "{}" "bad # rest"] b show ?thesis
    by (simp add: SetConditions_def reserved_def Let_def type_of_def)
next
  case False
  then have "find (reserved IsSystem) cr = None" by (simp add: find_None_iff)
  with False set_conditions_loop_good [of cr IsSystem Fatal rsp "{}" "[]"] show ?thesis
    by (simp add: SetConditions_def)
qed

section \<open>Properties\<close>

text \<open>C25: without a reserved type, \<open>SetConditions\<close> appends, in order, the translation of every
  entry that is forced or whose type no earlier entry has, and succeeds. With one, it appends
  what the entries before the first reserved one contribute, records the fatal result for that
  type and returns an error: the conditions already appended stay.\<close>

theorem SetConditions_correct:
  "SetConditions IsSystem Fatal rsp cr =
     (case find (reserved IsSystem) cr of
        None \<Rightarrow> (rsp\<lparr>Conditions := Conditions rsp @ map transformCondition (kept {} cr)\<rparr>, None)
      | Some bad \<Rightarrow>
          (Fatal (rsp\<lparr>Conditions := Conditions rsp @ map transformCondition
                    (kept {} (takeWhile (\<lambda>cs. \<not> reserved IsSystem cs) cr))\<rparr>)
                 (ReservedCondition (type_of bad)),
           Some ResponseUpdate))"
  by (rule SetConditions_eq)

text \<open>When no entry is forced or reserved, the appended conditions have pairwise different
  types, every emitted type is among them, and each is the translation of the first entry of its
  type.\<close>

theorem SetConditions_first_wins:
  assumes "\<forall>cs \<in> set cr. \<not> forced cs \<and> \<not> reserved IsSystem cs"
  shows "\<exists>new. SetConditions IsSystem Fatal rsp cr =
           (rsp\<lparr>Conditions := Conditions rsp @ map transformCondition new\<rparr>, None) \<and>
         distinct (map c_Type (map transformCondition new)) \<and>
         c_Type ` transformCondition ` set new = type_of ` set cr \<and>
         (\<forall>cs \<in> set new. find (\<lambda>x. type_of x = type_of cs) cr = Some cs)"
proof (intro exI conjI)
  have types [simp]: "c_Type (transformCondition cs) = type_of cs" for cs
    by (simp add: transformCondition_def type_of_def)
  have nf: "\<forall>cs \<in> set cr. \<not> forced cs" using assms by blast
  show "SetConditions IsSystem Fatal rsp cr =
      (rsp\<lparr>Conditions := Conditions rsp @ map transformCondition (kept {} cr)\<rparr>, None)"
    using assms by (auto simp: SetConditions_eq find_None_iff split: option.split
        dest!: find_Some_iff [THEN iffD1])
  show "distinct (map c_Type (map transformCondition (kept {} cr)))"
    using kept_distinct [OF nf, of "{}"] by (simp add: comp_def)
  show "c_Type ` transformCondition ` set (kept {} cr) = type_of ` set cr"
    using kept_types [OF nf, of "{}"] by (simp add: image_image)
  show "\<forall>cs \<in> set (kept {} cr). find (\<lambda>x. type_of x = type_of cs) cr = Some cs"
    using kept_first [OF nf] by blast
qed

definition example_condition :: "string \<Rightarrow> string \<Rightarrow> bool option \<Rightarrow> ConditionResource" where
  "example_condition t reason f = \<lparr>cr_Target = None, cr_Force = f,
     cr_Condition = \<lparr>cond_Type = t, cond_Status = ''True'', cond_Reason = reason, cond_Message = None\<rparr>\<rparr>"

definition example_response :: "unit Response" where
  "example_response = \<lparr>Conditions = [], Results = [], Requirements = None, Context = [], Desired = ()\<rparr>"

definition example_fatal :: "unit Response \<Rightarrow> go_error \<Rightarrow> unit Response" where
  "example_fatal rsp e = rsp\<lparr>Results := Results rsp @
     [\<lparr>r_Severity = SEVERITY_FATAL, r_Message = [], r_Reason = None, r_Target = None\<rparr>]\<rparr>"

lemma example_condition_simps [simp]:
  "forced (example_condition t r f) \<longleftrightarrow> f = Some True"
  "type_of (example_condition t r f) = t"
  by (simp_all add: example_condition_def forced_def type_of_def)

theorem SetConditions_first_wins_witness:
  "\<exists>new. SetConditions (\<lambda>t. t = ''Ready'') example_fatal example_response
       [example_condition ''Db'' ''A'' None, example_condition ''Db'' ''B'' (Some False)] =
     (example_response\<lparr>Conditions := map transformCondition new\<rparr>, None) \<and> length new = 1"
proof -
  let ?cr = "[example_condition ''Db'' ''A'' None, example_condition ''Db'' ''B'' (Some False)]"
  obtain new where new: "SetConditions (\<lambda>t. t = ''Ready'') example_fatal example_response ?cr =
      (example_response\<lparr>Conditions := Conditions example_response @ map transformCondition new\<rparr>, None)"
    "distinct (map c_Type (map transformCondition new))"
    "c_Type ` transformCondition ` set new = type_of ` set ?cr"
    using SetConditions_first_wins [of ?cr "\<lambda>t. t = ''Ready''" example_fatal example_response]
    by (auto simp: reserved_def)
  have "card (set (map c_Type (map transformCondition new))) = 1"
    using new(3) by (simp add: image_image)
  then have "length new = 1" using distinct_card [OF new(2)] by simp
  with new(1) show ?thesis by (auto simp: example_response_def)
qed

text \<open>A forced condition does not replace an earlier one of its type: all conditions set
  before it stay in the response, and it is appended after them.\<close>

theorem forced_condition_is_appended:
  assumes "\<forall>c \<in> set cr. \<not> reserved IsSystem c" and "\<not> reserved IsSystem cs" and "forced cs"
  shows "Conditions (fst (SetConditions IsSystem Fatal rsp (cr @ [cs]))) =
         Conditions (fst (SetConditions IsSystem Fatal rsp cr)) @ [transformCondition cs]"
proof -
  have "find (reserved IsSystem) cr = None" "find (reserved IsSystem) (cr @ [cs]) = None"
    using assms by (auto simp: find_None_iff)
  with assms(3) show ?thesis by (simp add: SetConditions_eq kept_snoc)
qed

theorem forced_condition_is_appended_witness:
  "map c_Type (Conditions (fst (SetConditions (\<lambda>t. t = ''Ready'') example_fatal example_response
       [example_condition ''Db'' ''A'' None, example_condition ''Db'' ''B'' (Some True)]))) =
     [''Db'', ''Db'']"
proof -
  have "Conditions (fst (SetConditions (\<lambda>t. t = ''Ready'') example_fatal example_response
       ([example_condition ''Db'' ''A'' None] @ [example_condition ''Db'' ''B'' (Some True)]))) =
     Conditions (fst (SetConditions (\<lambda>t. t = ''Ready'') example_fatal example_response
       [example_condition ''Db'' ''A'' None])) @
     [transformCondition (example_condition ''Db'' ''B'' (Some True))]"
    by (rule forced_condition_is_appended) (simp_all add: reserved_def)
  then show ?thesis
    by (simp add: SetConditions_def Let_def example_response_def transformCondition_def
        example_condition_def)
qed

text \<open>C26: when the type of every event is absent, \<open>Normal\<close> or \<open>Warning\<close>, \<open>SetEvents\<close> succeeds and
  appends one result per event, in order, with the event's message and reason, with severity
  warning exactly for the type \<open>Warning\<close> and normal otherwise, and with the target composite
  unless the event names composite and claim. At the first event with another type it keeps the
  results of the events before it, records a fatal result that names the type and returns an
  error.\<close>

theorem SetEvents_correct:
  assumes "\<forall>er \<in> set good. ev_Type (ce_Event er) \<in> {None, Some ''Normal'', Some ''Warning''}"
  shows "\<exists>rs. SetEvents Fatal rsp good = (rsp\<lparr>Results := Results rsp @ rs\<rparr>, None) \<and>
    list_all2 (\<lambda>er r. r_Message r = ev_Message (ce_Event er) \<and> r_Reason r = ev_Reason (ce_Event er) \<and>
       r_Severity r = (if ev_Type (ce_Event er) = Some ''Warning'' then SEVERITY_WARNING
         else SEVERITY_NORMAL) \<and>
       r_Target r = Some (if ce_Target er = Some ''CompositeAndClaim'' then TARGET_COMPOSITE_AND_CLAIM
         else TARGET_COMPOSITE)) good rs \<and>
    (ev_Type (ce_Event bad) = Some t \<and> t \<noteq> ''Normal'' \<and> t \<noteq> ''Warning'' \<longrightarrow>
       SetEvents Fatal rsp (good @ bad # rest) =
         (Fatal (rsp\<lparr>Results := Results rsp @ rs\<rparr>) (InvalidEventType t), Some ResponseUpdate))"
proof -
  obtain rs where rs: "list_all2 (\<lambda>er r. transformEvent er = Inr r) good rs"
    using assms by (rule transformEvent_all)
  then have fields: "list_all2 (\<lambda>er r. r_Message r = ev_Message (ce_Event er) \<and>
       r_Reason r = ev_Reason (ce_Event er) \<and>
       r_Severity r = (if ev_Type (ce_Event er) = Some ''Warning'' then SEVERITY_WARNING
         else SEVERITY_NORMAL) \<and>
       r_Target r = Some (if ce_Target er = Some ''CompositeAndClaim'' then TARGET_COMPOSITE_AND_CLAIM
         else TARGET_COMPOSITE)) good rs"
    by (rule list_all2_mono) (rule transformEvent_fields)
  have "SetEvents Fatal rsp (good @ bad # rest) =
      (Fatal (rsp\<lparr>Results := Results rsp @ rs\<rparr>) (InvalidEventType t), Some ResponseUpdate)"
    if "ev_Type (ce_Event bad) = Some t \<and> t \<noteq> ''Normal'' \<and> t \<noteq> ''Warning''"
  proof -
    from that have "transformEvent bad = Inl (InvalidEventType t)"
      by (auto simp: transformEvent_error EventTypeNormal_def EventTypeWarning_def)
    then show ?thesis using SetEvents_good [OF rs, of Fatal rsp "bad # rest"] by simp
  qed
  with fields SetEvents_good [OF rs, of Fatal rsp "[]"] show ?thesis by (intro exI [of _ rs]) simp
qed

definition example_event :: "string option \<Rightarrow> string \<Rightarrow> CreateEvent" where
  "example_event t m = \<lparr>ce_Target = None, ce_Event = \<lparr>ev_Type = t, ev_Reason = None, ev_Message = m\<rparr>\<rparr>"

theorem SetEvents_correct_witness:
  "\<exists>r1 r2. SetEvents example_fatal example_response
     [example_event None ''a'', example_event (Some ''Warning'') ''b'', example_event (Some ''Error'') ''c''] =
     (example_fatal (example_response\<lparr>Results := [r1, r2]\<rparr>) (InvalidEventType ''Error''), Some ResponseUpdate) \<and>
   r_Severity r1 = SEVERITY_NORMAL \<and> r_Severity r2 = SEVERITY_WARNING"
proof -
  let ?good = "[example_event None ''a'', example_event (Some ''Warning'') ''b'']"
  have "\<forall>er \<in> set ?good. ev_Type (ce_Event er) \<in> {None, Some ''Normal'', Some ''Warning''}"
    by (simp add: example_event_def)
  from SetEvents_correct [OF this, where bad = "example_event (Some ''Error'') ''c''"
      and t = "''Error''" and rest = "[]" and Fatal = example_fatal and rsp = example_response]
  show ?thesis by (auto simp: list_all2_Cons1 example_event_def example_response_def)
qed

end
