(* ===== verification/Kube.thy ===== *)
theory Kube
  imports Response
begin

text \<open>
  The library operations on Kubernetes objects the resource code calls, as one record of
  parameters: the accessors of \<open>unstructured\<close>, \<open>meta.RemoveAnnotations\<close>, the field paths of
  crossplane-runtime with its typed readers, and \<open>mergo.Merge\<close>. Their documented behaviour is
  stated as predicates over the record and used as hypotheses by name.
\<close>

section \<open>The operations\<close>

datatype 'a lookup = Found 'a | NotFound | Failed go_error

text \<open>
  \<open>meta.RemoveAnnotations\<close> changes the object in place, so its model returns the new object.
  \<open>Into\<close> readers that fill an existing value take that value as an argument. \<open>newReady\<close> is the
  readiness of \<open>resource.NewDesiredComposed()\<close>.
\<close>

record kube =
  getAPIVersion :: "obj \<Rightarrow> string"
  getKind :: "obj \<Rightarrow> string"
  getName :: "obj \<Rightarrow> string"
  getAnnotations :: "obj \<Rightarrow> (string \<rightharpoonup> string)"
  removeAnnotations :: "obj \<Rightarrow> string \<Rightarrow> obj"
  GetValue :: "obj \<Rightarrow> string \<Rightarrow> gval lookup"
  SetValue :: "obj \<Rightarrow> string \<Rightarrow> gval \<Rightarrow> go_error + obj"
  GetMapInto :: "obj \<Rightarrow> string \<Rightarrow> gval gomap \<Rightarrow> gval gomap lookup"
  GetStringObject :: "obj \<Rightarrow> string \<Rightarrow> go_error + string gomap"
  GetExtraInto :: "obj \<Rightarrow> string \<Rightarrow> go_error + ExtraResourcesRequirement gomap"
  GetRequiredInto :: "obj \<Rightarrow> string \<Rightarrow> go_error + RequiredResourcesRequirement gomap"
  GetConditionsInto :: "obj \<Rightarrow> string \<Rightarrow> ConditionResource list \<Rightarrow> go_error + ConditionResource list"
  GetEventsInto :: "obj \<Rightarrow> string \<Rightarrow> CreateEvent list \<Rightarrow> go_error + CreateEvent list"
  mergoMerge :: "gval gomap \<Rightarrow> gval gomap \<Rightarrow> go_error + gval gomap"
  newReady :: string

section \<open>Documented behaviour\<close>

text \<open>Removing an annotation removes that annotation and touches nothing else that is read.\<close>

definition annotation_laws :: "kube \<Rightarrow> bool" where
  "annotation_laws K \<longleftrightarrow>
     (\<forall>u k. getAnnotations K (removeAnnotations K u k) = (getAnnotations K u)(k := None)) \<and>
     (\<forall>u k. getName K (removeAnnotations K u k) = getName K u) \<and>
     (\<forall>u k. getKind K (removeAnnotations K u k) = getKind K u) \<and>
     (\<forall>u k. getAPIVersion K (removeAnnotations K u k) = getAPIVersion K u)"

lemma annotation_lawsD:
  assumes "annotation_laws K"
  shows "getAnnotations K (removeAnnotations K u k) = (getAnnotations K u)(k := None)"
    and "getName K (removeAnnotations K u k) = getName K u"
    and "getKind K (removeAnnotations K u k) = getKind K u"
    and "getAPIVersion K (removeAnnotations K u k) = getAPIVersion K u"
  using assms by (auto simp: annotation_laws_def)

text \<open>A value written at a path is read back there, and paths outside \<open>clash\<close> are not disturbed.\<close>

definition path_laws :: "kube \<Rightarrow> (string \<Rightarrow> string \<Rightarrow> bool) \<Rightarrow> bool" where
  "path_laws K clash \<longleftrightarrow>
     (\<forall>u p v u'. SetValue K u p v = Inr u' \<longrightarrow> GetValue K u' p = Found v) \<and>
     (\<forall>u p q v u'. SetValue K u p v = Inr u' \<longrightarrow> \<not> clash p q \<longrightarrow> GetValue K u' q = GetValue K u q)"

section \<open>Composed and composite resources\<close>

record DesiredComposed =
  dc_Resource :: "obj option"
  dc_Ready :: string

text \<open>\<open>ConnectionDetails\<close> may be a nil map, which panics when written.\<close>

record Composite =
  xr_Resource :: "obj option"
  xr_ConnectionDetails :: "string gomap option"

type_synonym desired_map = "DesiredComposed gomap"

definition AnnotationKeyReady :: string where
  "AnnotationKeyReady = ''krm.kcl.dev/ready''"

definition AnnotationKeyCompositionResourceName :: string where
  "AnnotationKeyCompositionResourceName = ''krm.kcl.dev/composition-resource-name''"

definition MetaApiVersion :: string where
  "MetaApiVersion = ''meta.krm.kcl.dev/v1alpha1''"

lemma annotation_keys_differ [simp]:
  "AnnotationKeyReady \<noteq> AnnotationKeyCompositionResourceName"
  "AnnotationKeyCompositionResourceName \<noteq> AnnotationKeyReady"
  by (simp_all add: AnnotationKeyReady_def AnnotationKeyCompositionResourceName_def)

section \<open>A concrete instance for examples\<close>

text \<open>
  The witnesses of the properties run on this instance: the accessors read the usual fields of
  the nested maps, paths are looked up as whole keys, and merging is \<open>overlay\<close>.
\<close>

definition string_field :: "string \<Rightarrow> obj \<Rightarrow> string" where
  "string_field k u = (case map_of u k of Some (GString s) \<Rightarrow> s | _ \<Rightarrow> [])"

definition map_field :: "string \<Rightarrow> obj \<Rightarrow> obj" where
  "map_field k u = (case map_of u k of Some (GMap m) \<Rightarrow> m | _ \<Rightarrow> [])"

definition map_string :: "gval \<Rightarrow> string" where
  "map_string v = (case v of GString s \<Rightarrow> s | _ \<Rightarrow> [])"

definition set_map_field :: "string \<Rightarrow> obj \<Rightarrow> obj \<Rightarrow> obj" where
  "set_map_field k m u = AList.update k (GMap m) u"

definition example_kube :: kube where
  "example_kube =
     \<lparr>getAPIVersion = string_field ''apiVersion'',
      getKind = string_field ''kind'',
      getName = (\<lambda>u. string_field ''name'' (map_field ''metadata'' u)),
      getAnnotations = (\<lambda>u k. map_option map_string
         (map_of (map_field ''annotations'' (map_field ''metadata'' u)) k)),
      removeAnnotations = (\<lambda>u k.
         if map_field ''annotations'' (map_field ''metadata'' u) = [] then u
         else set_map_field ''metadata''
           (set_map_field ''annotations''
              (AList.delete k (map_field ''annotations'' (map_field ''metadata'' u)))
              (map_field ''metadata'' u)) u),
      GetValue = (\<lambda>u p. case map_of u p of None \<Rightarrow> NotFound | Some v \<Rightarrow> Found v),
      SetValue = (\<lambda>u p v. Inr (AList.update p v u)),
      GetMapInto = (\<lambda>u p old. case map_of u p of
           None \<Rightarrow> NotFound
         | Some (GMap m) \<Rightarrow> Found (overlay old m)
         | Some _ \<Rightarrow> Failed (External ''not an object'')),
      GetStringObject = (\<lambda>u p. case map_of u p of
           Some (GMap m) \<Rightarrow> Inr (map (\<lambda>(k, v). (k, map_string v)) m)
         | _ \<Rightarrow> Inl (External ''not an object'')),
      GetExtraInto = (\<lambda>u p. case map_of u p of
           Some (GMap m) \<Rightarrow> Inr (map (\<lambda>(k, v). (k, example_requirement\<lparr>er_MatchName := map_string v\<rparr>)) m)
         | _ \<Rightarrow> Inl (External ''no requirements'')),
      GetRequiredInto = (\<lambda>u p. case map_of u p of
           Some (GMap m) \<Rightarrow> Inr (map (\<lambda>(k, v).
             (k, as_required (example_requirement\<lparr>er_MatchName := map_string v\<rparr>))) m)
         | _ \<Rightarrow> Inl (External ''no requirements'')),
      GetConditionsInto = (\<lambda>u p old. Inr [example_condition (string_field ''type'' u) [] None]),
      GetEventsInto = (\<lambda>u p old. Inr [example_event None (string_field ''message'' u)]),
      mergoMerge = (\<lambda>dst src. Inr (overlay dst src)),
      newReady = []\<rparr>"

lemma map_of_delete [gomap_simps]: "map_of (AList.delete k m) = (map_of m)(k := None)"
  by (simp add: delete_conv')

lemma field_set_map_field [simp]:
  "map_field k (set_map_field k m u) = m"
  "k \<noteq> k' \<Longrightarrow> map_field k' (set_map_field k m u) = map_field k' u"
  "k \<noteq> k' \<Longrightarrow> string_field k' (set_map_field k m u) = string_field k' u"
  by (simp_all add: map_field_def string_field_def set_map_field_def gomap_simps)

lemma example_kube_accessors:
  "getAPIVersion example_kube u = string_field ''apiVersion'' u"
  "getKind example_kube u = string_field ''kind'' u"
  "getName example_kube u = string_field ''name'' (map_field ''metadata'' u)"
  "getAnnotations example_kube u k =
     map_option map_string (map_of (map_field ''annotations'' (map_field ''metadata'' u)) k)"
  "removeAnnotations example_kube u k =
     (if map_field ''annotations'' (map_field ''metadata'' u) = [] then u
      else set_map_field ''metadata''
        (set_map_field ''annotations''
           (AList.delete k (map_field ''annotations'' (map_field ''metadata'' u)))
           (map_field ''metadata'' u)) u)"
  by (simp_all add: example_kube_def)

lemma example_annotation_laws: "annotation_laws example_kube"
  by (simp add: annotation_laws_def example_kube_accessors fun_eq_iff gomap_simps)

lemma example_path_laws: "path_laws example_kube (=)"
  by (auto simp: path_laws_def example_kube_def gomap_simps)

end
