(* ===== verification/Naming.thy ===== *)
theory Naming
  imports Kube
begin

text \<open>
  \<open>GetResourceName\<close> and the duplicate checker of \<open>pkg/resource/res.go\<close>, and the contract the
  loops that register names rely on, as the locale \<open>name_registry\<close>.
\<close>

section \<open>GetResourceName\<close>

text \<open>The name and the object, whose name annotation has been removed in place.\<close>

definition GetResourceName :: "kube \<Rightarrow> obj \<Rightarrow> string \<times> obj" where
  "GetResourceName K cd =
     (let name = (case getAnnotations K cd AnnotationKeyCompositionResourceName of
                    Some n \<Rightarrow> n | None \<Rightarrow> getName K cd)
      in (name, removeAnnotations K cd AnnotationKeyCompositionResourceName))"

abbreviation resource_name :: "kube \<Rightarrow> obj \<Rightarrow> string" where
  "resource_name K u \<equiv> fst (GetResourceName K u)"

abbreviation stripped :: "kube \<Rightarrow> obj \<Rightarrow> obj" where
  "stripped K u \<equiv> snd (GetResourceName K u)"

lemma GetResourceName_again:
  assumes "annotation_laws K"
  shows "resource_name K (stripped K u) = getName K u"
  using assms by (simp add: GetResourceName_def annotation_lawsD)

section \<open>The duplicate checker\<close>

type_synonym duplicateChecker = "string \<rightharpoonup> string"

definition newDuplicateChecker :: duplicateChecker where
  "newDuplicateChecker = Map.empty"

definition CheckDuplicateName ::
  "kube \<Rightarrow> duplicateChecker \<Rightarrow> obj \<Rightarrow> string \<Rightarrow> go_error + duplicateChecker"
where
  "CheckDuplicateName K c cd name =
     (let kindAndName = getKind K cd @ ''/'' @ getName K cd
      in case c name of
           Some other \<Rightarrow> Inl (DuplicateName name other kindAndName)
         | None \<Rightarrow> Inr (c(name \<mapsto> kindAndName)))"

definition CheckAndSetDesired ::
  "kube \<Rightarrow> duplicateChecker \<Rightarrow> desired_map \<Rightarrow> DesiredComposed \<Rightarrow>
   failure + duplicateChecker \<times> desired_map"
where
  "CheckAndSetDesired K c desired cd =
     (case dc_Resource cd of
        None \<Rightarrow> Inl (Panic NilDereference)
      | Some u \<Rightarrow>
          let (name, u') = GetResourceName K u
          in bind_result (lift_error (CheckDuplicateName K c u' name)) (\<lambda>c'.
               Inr (c', AList.update name (cd\<lparr>dc_Resource := Some u'\<rparr>) desired)))"

section \<open>The contract of a name registry\<close>

text \<open>
  A registry admits a name exactly once. A loop that registers the name of each item before it
  updates its own state succeeds exactly when the names are new and pairwise different, and
  then it has performed every update, in order.
\<close>

locale name_registry =
  fixes check :: "'r \<Rightarrow> 'o \<Rightarrow> string \<Rightarrow> 'e + 'r"
    and known :: "'r \<Rightarrow> string set"
  assumes check_ok: "is_ok (check r u n) \<longleftrightarrow> n \<notin> known r"
    and check_known: "check r u n = Inr r' \<Longrightarrow> known r' = insert n (known r)"
begin

definition register_step ::
  "('i \<Rightarrow> 'o) \<Rightarrow> ('i \<Rightarrow> string) \<Rightarrow> ('d \<Rightarrow> 'i \<Rightarrow> 'd) \<Rightarrow> 'd \<times> 'r \<Rightarrow> 'i \<Rightarrow> 'e + ('d \<times> 'r)"
where
  "register_step ob nm upd s x =
     bind_result (check (snd s) (ob x) (nm x)) (\<lambda>r'. Inr (upd (fst s) x, r'))"

lemma register_loop_ok:
  "is_ok (loop (register_step ob nm upd) (d, r) xs) \<longleftrightarrow>
     distinct (map nm xs) \<and> nm ` set xs \<inter> known r = {}"
proof (induction xs arbitrary: d r)
  case (Cons x xs)
  show ?case
  proof (cases "check r (ob x) (nm x)")
    case (Inl e)
    then have "nm x \<in> known r" using check_ok [of r "ob x" "nm x"] by auto
    with Inl show ?thesis by (auto simp: register_step_def)
  next
    case (Inr r')
    then have "nm x \<notin> known r" using check_ok [of r "ob x" "nm x"] by auto
    with Inr Cons.IH check_known [OF Inr] show ?thesis
      by (auto simp: register_step_def)
  qed
qed simp

lemma register_loop_result:
  "loop (register_step ob nm upd) (d, r) xs = Inr (d', r') \<Longrightarrow>
     d' = foldl upd d xs \<and> known r' = nm ` set xs \<union> known r"
  by (induction xs arbitrary: d r)
     (auto simp: register_step_def result_simps dest: check_known)

lemma plain_loop_ok:
  "is_ok (loop (\<lambda>r x. check r (ob x) (nm x)) r xs) \<longleftrightarrow>
     distinct (map nm xs) \<and> nm ` set xs \<inter> known r = {}"
proof (induction xs arbitrary: r)
  case (Cons x xs)
  show ?case
  proof (cases "check r (ob x) (nm x)")
    case (Inl e)
    then have "nm x \<in> known r" using check_ok [of r "ob x" "nm x"] by auto
    with Inl show ?thesis by auto
  next
    case (Inr r')
    then have "nm x \<notin> known r" using check_ok [of r "ob x" "nm x"] by auto
    with Inr Cons.IH check_known [OF Inr] show ?thesis by auto
  qed
qed simp

end

text \<open>The duplicate checker is such a registry.\<close>

lemma CheckDuplicateName_ok: "is_ok (CheckDuplicateName K c cd n) \<longleftrightarrow> n \<notin> dom c"
  by (auto simp: CheckDuplicateName_def Let_def split: option.split)

lemma CheckDuplicateName_dom: "CheckDuplicateName K c cd n = Inr c' \<Longrightarrow> dom c' = insert n (dom c)"
  by (auto simp: CheckDuplicateName_def Let_def split: option.splits)

interpretation checker: name_registry
    "\<lambda>c cd n. lift_error (CheckDuplicateName K c cd n)" "dom :: duplicateChecker \<Rightarrow> string set" for K
proof unfold_locales
  fix r :: duplicateChecker and u n
  show "is_ok (lift_error (CheckDuplicateName K r u n)) \<longleftrightarrow> n \<notin> dom r"
    using CheckDuplicateName_ok [of K r u n] by (simp add: is_ok_iff result_simps)
qed (simp add: result_simps CheckDuplicateName_dom)

lemma CheckDuplicateName_error:
  "CheckDuplicateName K c cd n = Inl e \<Longrightarrow> \<exists>a b. e = DuplicateName n a b"
  by (auto simp: CheckDuplicateName_def Let_def split: option.splits)

lemma CheckDuplicateName_eq:
  "CheckDuplicateName K c cd n =
     (if n \<in> dom c then Inl (DuplicateName n (the (c n)) (getKind K cd @ ''/'' @ getName K cd))
      else Inr (c(n \<mapsto> getKind K cd @ ''/'' @ getName K cd)))"
  by (auto simp: CheckDuplicateName_def Let_def split: option.split)

end
