(* ===== verification/Go_Strings.thy ===== *)
theory Go_Strings
  imports Prelude "HOL-Library.Word" "HOL-Library.Sublist"
begin

text \<open>
  What the sources use of Go's \<open>strings\<close>, \<open>strconv\<close> and \<open>fmt\<close>, over strings as lists of
  bytes (HOL's \<open>char\<close> is a byte): prefix and suffix tests, \<open>TrimSpace\<close>, \<open>SplitN\<close> at the
  first separator, decimal printing and \<open>ParseUint(s, 10, 64)\<close>, with their round trips.
\<close>

section \<open>Prefixes and suffixes\<close>

definition has_prefix :: "string \<Rightarrow> string \<Rightarrow> bool" where
  "has_prefix s p \<longleftrightarrow> take (length p) s = p"

definition has_suffix :: "string \<Rightarrow> string \<Rightarrow> bool" where
  "has_suffix s p \<longleftrightarrow> length p \<le> length s \<and> drop (length s - length p) s = p"

definition trim_prefix :: "string \<Rightarrow> string \<Rightarrow> string" where
  "trim_prefix s p = (if has_prefix s p then drop (length p) s else s)"

definition trim_suffix :: "string \<Rightarrow> string \<Rightarrow> string" where
  "trim_suffix s p = (if has_suffix s p then take (length s - length p) s else s)"

lemma has_prefix_iff: "has_prefix s p \<longleftrightarrow> (\<exists>t. s = p @ t)"
  unfolding has_prefix_def by (metis append_eq_conv_conj append_take_drop_id)

lemma has_suffix_iff: "has_suffix s p \<longleftrightarrow> (\<exists>t. s = t @ p)"
  unfolding has_suffix_def by (metis append_take_drop_id append_eq_conv_conj diff_le_self
      length_append length_drop le_add2 diff_diff_cancel add_diff_cancel_right')

lemma has_prefix_append [simp]: "has_prefix (p @ s) p"
  by (simp add: has_prefix_def)

lemma has_suffix_append [simp]: "has_suffix (s @ p) p"
  by (simp add: has_suffix_def)

lemma trim_prefix_append [simp]: "trim_prefix (p @ s) p = s"
  by (simp add: trim_prefix_def)

lemma trim_suffix_append [simp]: "trim_suffix (s @ p) p = s"
  by (simp add: trim_suffix_def)

lemma has_suffix_append_longer:
  "length p \<le> length t \<Longrightarrow> has_suffix (s @ t) p \<longleftrightarrow> has_suffix t p"
  by (auto simp: has_suffix_def)

section \<open>Decimal numbers\<close>

definition digit_char :: "nat \<Rightarrow> char" where
  "digit_char d = char_of (48 + d)"

definition digit_val :: "char \<Rightarrow> nat option" where
  "digit_val c = (let n = (of_char c :: nat) in if 48 \<le> n \<and> n \<le> 57 then Some (n - 48) else None)"

lemma digit_val_char [simp]: "d < 10 \<Longrightarrow> digit_val (digit_char d) = Some d"
  by (simp add: digit_val_def digit_char_def of_char_of)

fun itoa :: "nat \<Rightarrow> string" where
  "itoa n = (if n < 10 then [digit_char n] else itoa (n div 10) @ [digit_char (n mod 10)])"

declare itoa.simps [simp del]

lemma itoa_nonempty [simp]: "itoa n \<noteq> []"
  by (subst itoa.simps) simp

fun parse_digits :: "nat \<Rightarrow> string \<Rightarrow> nat option" where
  "parse_digits acc [] = Some acc"
| "parse_digits acc (c # cs) =
     (case digit_val c of None \<Rightarrow> None | Some d \<Rightarrow> parse_digits (10 * acc + d) cs)"

lemma parse_digits_append:
  "parse_digits acc (s @ t) = Option.bind (parse_digits acc s) (\<lambda>a. parse_digits a t)"
  by (induction acc s rule: parse_digits.induct) (auto split: option.split)

lemma parse_digits_itoa: "parse_digits 0 (itoa n) = Some n"
proof (induction n rule: itoa.induct)
  case (1 n)
  then show ?case
    by (subst itoa.simps) (auto simp: parse_digits_append)
qed

lemma itoa_inject: "itoa m = itoa n \<Longrightarrow> m = n"
  by (metis parse_digits_itoa option.inject)

lemma itoa_digits: "c \<in> set (itoa n) \<Longrightarrow> 48 \<le> (of_char c :: nat) \<and> (of_char c :: nat) \<le> 57"
proof (induction n rule: itoa.induct)
  case (1 n)
  then show ?case
    by (subst (asm) (2) itoa.simps)
       (auto simp: digit_char_def of_char_of split: if_splits)
qed

text \<open>\<open>ParseUint(s, 10, 64)\<close>: the empty string, a non-digit and a value of 64 bits or more
  are errors; base 10 admits neither signs nor underscores.\<close>

definition parse_uint :: "string \<Rightarrow> 64 word option" where
  "parse_uint s =
     (if s = [] then None
      else case parse_digits 0 s of
        None \<Rightarrow> None
      | Some n \<Rightarrow> if n < 2 ^ 64 then Some (word_of_nat n) else None)"

lemma parse_uint_itoa: "n < 2 ^ 64 \<Longrightarrow> parse_uint (itoa n) = Some (word_of_nat n)"
  by (simp add: parse_uint_def parse_digits_itoa)

lemma parse_uint_itoa_overflow: "2 ^ 64 \<le> n \<Longrightarrow> parse_uint (itoa n) = None"
  by (simp add: parse_uint_def parse_digits_itoa)

section \<open>Splitting and trimming\<close>

text \<open>\<open>strings.SplitN(s, "=", 2)\<close>: \<open>None\<close> when the separator does not occur.\<close>

fun split_first :: "char \<Rightarrow> string \<Rightarrow> (string \<times> string) option" where
  "split_first c [] = None"
| "split_first c (x # xs) =
     (if x = c then Some ([], xs)
      else map_option (\<lambda>(a, b). (x # a, b)) (split_first c xs))"

lemma split_first_Some:
  "split_first c s = Some (a, b) \<longleftrightarrow> s = a @ c # b \<and> c \<notin> set a"
proof (induction s arbitrary: a)
  case (Cons x s)
  then show ?case by (cases a) auto
qed simp

lemma split_first_None: "split_first c s = None \<longleftrightarrow> c \<notin> set s"
  by (induction s) auto

text \<open>
  The encodings of the code points \<open>unicode.IsSpace\<close> accepts: the ASCII ones (tab, line feed,
  vertical tab, form feed, carriage return, space), then U+0085, U+00A0, U+1680,
  U+2000 to U+200A, U+2028, U+2029, U+202F, U+205F and U+3000 in UTF-8.
\<close>

definition space_codes :: "nat list list" where
  "space_codes =
     [[9], [10], [11], [12], [13], [32], [194, 133], [194, 160], [225, 154, 128]] @
     map (\<lambda>k. [226, 128, 128 + k]) [0..<11] @
     [[226, 128, 168], [226, 128, 169], [226, 128, 175], [226, 129, 159], [227, 128, 128]]"

definition spaces :: "string list" where
  "spaces = map (map char_of) space_codes"

definition rev_spaces :: "string list" where
  "rev_spaces = map rev spaces"

lemma spaces_nonempty: "[] \<notin> set spaces" "[] \<notin> set rev_spaces"
  by (auto simp: spaces_def rev_spaces_def space_codes_def)

definition find_space :: "string list \<Rightarrow> string \<Rightarrow> string option" where
  "find_space ps s = find (has_prefix s) ps"

lemma find_space_length:
  "find_space ps s = Some p \<Longrightarrow> [] \<notin> set ps \<Longrightarrow> 0 < length p \<and> s \<noteq> []"
  by (auto simp: find_space_def find_Some_iff has_prefix_def in_set_conv_nth)

function strip_spaces :: "string list \<Rightarrow> string \<Rightarrow> string" where
  "strip_spaces ps s =
     (if [] \<in> set ps then s
      else case find_space ps s of None \<Rightarrow> s | Some p \<Rightarrow> strip_spaces ps (drop (length p) s))"
  by pat_completeness auto
termination
  by (relation "measure (\<lambda>(ps, s). length s)") (auto dest: find_space_length)

declare strip_spaces.simps [simp del]

definition trim_space :: "string \<Rightarrow> string" where
  "trim_space s = rev (strip_spaces rev_spaces (rev (strip_spaces spaces s)))"

lemma strip_spaces_id: "find_space ps s = None \<Longrightarrow> strip_spaces ps s = s"
  by (subst strip_spaces.simps) simp

definition plain_char :: "char \<Rightarrow> bool" where
  "plain_char c \<longleftrightarrow> 33 \<le> (of_char c :: nat) \<and> (of_char c :: nat) \<le> 126"

lemma hd_spaces:
  "p \<in> set spaces \<Longrightarrow> \<not> plain_char (hd p)"
  "p \<in> set rev_spaces \<Longrightarrow> \<not> plain_char (hd p)"
  by (auto simp: spaces_def rev_spaces_def space_codes_def plain_char_def of_char_of)

lemma find_space_plain:
  assumes "s = [] \<or> plain_char (hd s)" and "\<And>p. p \<in> set ps \<Longrightarrow> p \<noteq> [] \<and> \<not> plain_char (hd p)"
  shows "find_space ps s = None"
proof -
  have "\<not> has_prefix s p" if "p \<in> set ps" for p
    using assms(1) assms(2) [OF that] by (cases p; cases s) (auto simp: has_prefix_def)
  then show ?thesis by (auto simp: find_space_def find_None_iff)
qed

text \<open>A text of printable non-space ASCII bytes is its own trimmed form.\<close>

lemma trim_space_plain:
  assumes "\<And>c. c \<in> set s \<Longrightarrow> plain_char c"
  shows "trim_space s = s"
proof -
  have "find_space spaces s = None" "find_space rev_spaces (rev s) = None"
    using assms spaces_nonempty hd_spaces
    by (intro find_space_plain; cases s rule: rev_cases; force simp: hd_append hd_rev)+
  then show ?thesis by (simp add: trim_space_def strip_spaces_id)
qed

text \<open>A final line feed is trimmed.\<close>

lemma find_space_newline:
  "find_space spaces (CHR 0x0A # rest) = Some [CHR 0x0A]"
  "find_space rev_spaces (CHR 0x0A # rest) = Some [CHR 0x0A]"
  by (simp_all add: find_space_def rev_spaces_def spaces_def space_codes_def has_prefix_def char_of_def bit_0)

lemma trim_space_newline:
  assumes "\<And>c. c \<in> set s \<Longrightarrow> plain_char c"
  shows "trim_space (s @ [CHR 0x0A]) = s"
proof (cases "s = []")
  case False
  have "find_space spaces (s @ [CHR 0x0A]) = None" "find_space rev_spaces (rev s) = None"
    using assms spaces_nonempty hd_spaces False
    by (intro find_space_plain; cases s rule: rev_cases; force simp: hd_append hd_rev)+
  moreover have "strip_spaces rev_spaces (CHR 0x0A # rev s) = strip_spaces rev_spaces (rev s)"
    using spaces_nonempty by (subst strip_spaces.simps) (simp add: find_space_newline)
  ultimately show ?thesis by (simp add: trim_space_def strip_spaces_id)
next
  case True
  have "find_space ps [] = None" if "[] \<notin> set ps" for ps
    using that by (auto simp: find_space_def find_None_iff has_prefix_def)
  then have "strip_spaces ps [] = []" if "[] \<notin> set ps" for ps
    using that by (simp add: strip_spaces_id)
  with True show ?thesis
    using spaces_nonempty strip_spaces.simps [of spaces "[CHR 0x0A]"]
    by (simp add: trim_space_def find_space_newline)
qed

text \<open>\<open>strings.Fields\<close>: the pieces between runs of white space.\<close>

function fields_from :: "string \<Rightarrow> string \<Rightarrow> string list" where
  "fields_from field s =
     (case s of
        [] \<Rightarrow> if field = [] then [] else [field]
      | c # cs \<Rightarrow>
          (case find_space spaces s of
             Some p \<Rightarrow> (if field = [] then [] else [field]) @ fields_from [] (drop (length p) s)
           | None \<Rightarrow> fields_from (field @ [c]) cs))"
  by pat_completeness auto
termination
  by (relation "measure (\<lambda>(field, s). length s)")
     (auto dest: find_space_length [OF _ spaces_nonempty(1)])

declare fields_from.simps [simp del]

definition Fields :: "string \<Rightarrow> string list" where
  "Fields s = fields_from [] s"

lemma fields_from_plain:
  assumes "\<And>c. c \<in> set w \<Longrightarrow> plain_char c"
  shows "fields_from field (w @ rest) = fields_from (field @ w) rest"
  using assms
proof (induction w arbitrary: field)
  case (Cons c w)
  have "find_space spaces (c # w @ rest) = None"
    using Cons.prems spaces_nonempty hd_spaces by (intro find_space_plain) auto
  with Cons show ?case by (simp add: fields_from.simps [of field "c # w @ rest"])
qed simp

lemma fields_from_space:
  "fields_from field (CHR '' '' # rest) =
     (if field = [] then [] else [field]) @ fields_from [] rest"
proof -
  have "find_space spaces (CHR '' '' # rest) = Some '' ''"
    by (simp add: find_space_def spaces_def space_codes_def has_prefix_def char_of_def bit_0)
  then show ?thesis by (simp add: fields_from.simps [of field "CHR '' '' # rest"])
qed

lemma fields_two:
  assumes "\<And>c. c \<in> set a \<union> set b \<Longrightarrow> plain_char c" and "a \<noteq> []" and "b \<noteq> []"
  shows "\<exists>more. Fields (a @ '' '' @ b @ '' '' @ rest) = a # b # more"
proof -
  have "Fields (a @ '' '' @ b @ '' '' @ rest) = a # b # fields_from [] rest"
    using fields_from_plain [of a "[]" "'' '' @ b @ '' '' @ rest"]
      fields_from_plain [of b "[]" "'' '' @ rest"] assms
    by (simp add: Fields_def fields_from_space)
  then show ?thesis by blast
qed

lemma itoa_plain: "c \<in> set (itoa n) \<Longrightarrow> plain_char c"
  using itoa_digits [of c n] by (simp add: plain_char_def)

end
