(* ===== verification/Set_Data.thy ===== *)
theory Set_Data
  imports Naming Go_Strings
begin

text \<open>
  \<open>SetData\<close> of \<open>pkg/resource/res.go\<close>: the recursion that turns patch data into field paths and
  writes every leaf to a composed resource or to the composite. It is shown equal to a loop over
  the flat list of leaves, from which its properties follow.
\<close>

section \<open>SetData\<close>

text \<open>What \<open>SetData\<close> writes to; the pointer to the resource may be nil.\<close>

datatype settable =
    SetComposed "obj option"
  | SetComposite "obj option"
  | SetOther

definition is_wrapped :: "string \<Rightarrow> bool" where
  "is_wrapped path \<longleftrightarrow>
     has_suffix path ''.metadata.annotations'' \<or> has_suffix path ''.metadata.labels''"

definition child_key :: "string \<Rightarrow> string \<Rightarrow> string" where
  "child_key path key =
     (if is_wrapped path then path @ ''['' @ key @ '']'' else path @ ''.'' @ key)"

definition child_index :: "string \<Rightarrow> nat \<Rightarrow> string" where
  "child_index path i = path @ ''['' @ itoa i @ '']''"

definition protected_paths :: "string set" where
  "protected_paths = {''apiVersion'', ''kind'', ''metadata.name''}"

text \<open>The guarded write at a leaf that both kinds of resources share.\<close>

definition write_value ::
  "kube \<Rightarrow> bool \<Rightarrow> obj \<Rightarrow> string \<Rightarrow> gval \<Rightarrow> go_error + obj"
where
  "write_value K overwrite r path data =
     (case GetValue K r path of
        Failed e \<Rightarrow> Inl (Wrapped (''getting '' @ path) e)
      | NotFound \<Rightarrow> wrap_error (''setting '' @ path) (SetValue K r path data)
      | Found curVal \<Rightarrow>
          if curVal \<noteq> GNil \<and> \<not> overwrite then Inl (ConflictingValues path curVal data)
          else wrap_error (''setting '' @ path) (SetValue K r path data))"

definition set_leaf ::
  "kube \<Rightarrow> bool \<Rightarrow> settable \<Rightarrow> string \<times> gval \<Rightarrow> go_error + settable"
where
  "set_leaf K overwrite target leaf =
     (let path = trim_prefix (fst leaf) ''.''; data = snd leaf
      in case target of
           SetComposed resource \<Rightarrow>
             if path \<in> protected_paths then Inr target
             else (case resource of
               None \<Rightarrow> Inl (NilResource ''DesiredComposed'')
             | Some r \<Rightarrow> bind_result (write_value K overwrite r path data)
                 (\<lambda>r'. Inr (SetComposed (Some r'))))
         | SetComposite resource \<Rightarrow>
             (case resource of
               None \<Rightarrow> Inl (NilResource ''XR'')
             | Some r \<Rightarrow> bind_result (write_value K overwrite r path data)
                 (\<lambda>r'. Inr (SetComposite (Some r'))))
         | SetOther \<Rightarrow> Inl InvalidObjectType)"

fun SetData :: "kube \<Rightarrow> gval \<Rightarrow> string \<Rightarrow> settable \<Rightarrow> bool \<Rightarrow> go_error + settable"
  and set_entries ::
    "kube \<Rightarrow> (string \<times> gval) list \<Rightarrow> string \<Rightarrow> settable \<Rightarrow> bool \<Rightarrow> go_error + settable"
  and set_elements ::
    "kube \<Rightarrow> gval list \<Rightarrow> nat \<Rightarrow> string \<Rightarrow> settable \<Rightarrow> bool \<Rightarrow> go_error + settable"
where
  "SetData K (GMap val) path target overwrite = set_entries K val path target overwrite"
| "SetData K (GSlice val) path target overwrite = set_elements K val 0 path target overwrite"
| "SetData K data path target overwrite = set_leaf K overwrite target (path, data)"
| "set_entries K [] path target overwrite = Inr target"
| "set_entries K ((key, value) # val) path target overwrite =
     bind_result (SetData K value (child_key path key) target overwrite)
       (\<lambda>target'. set_entries K val path target' overwrite)"
| "set_elements K [] i path target overwrite = Inr target"
| "set_elements K (value # val) i path target overwrite =
     bind_result (SetData K value (child_index path i) target overwrite)
       (\<lambda>target'. set_elements K val (Suc i) path target' overwrite)"

section \<open>The leaves of patch data\<close>

fun leaves :: "gval \<Rightarrow> string \<Rightarrow> (string \<times> gval) list"
  and leaves_entries :: "(string \<times> gval) list \<Rightarrow> string \<Rightarrow> (string \<times> gval) list"
  and leaves_elements :: "gval list \<Rightarrow> nat \<Rightarrow> string \<Rightarrow> (string \<times> gval) list"
where
  "leaves (GMap val) path = leaves_entries val path"
| "leaves (GSlice val) path = leaves_elements val 0 path"
| "leaves data path = [(path, data)]"
| "leaves_entries [] path = []"
| "leaves_entries ((key, value) # val) path =
     leaves value (child_key path key) @ leaves_entries val path"
| "leaves_elements [] i path = []"
| "leaves_elements (value # val) i path =
     leaves value (child_index path i) @ leaves_elements val (Suc i) path"

lemma SetData_leaves:
  "SetData K data path target ow = loop (set_leaf K ow) target (leaves data path)"
  "set_entries K es path target ow = loop (set_leaf K ow) target (leaves_entries es path)"
  "set_elements K xs i path target ow = loop (set_leaf K ow) target (leaves_elements xs i path)"
  by (induction K data path target ow and K es path target ow and K xs i path target ow
      rule: SetData_set_entries_set_elements.induct)
     (auto simp: loop_append intro: bind_result_cong)

section \<open>Writes to one resource\<close>

definition write_leaf :: "kube \<Rightarrow> bool \<Rightarrow> obj \<Rightarrow> string \<times> gval \<Rightarrow> go_error + obj" where
  "write_leaf K overwrite r leaf = write_value K overwrite r (fst leaf) (snd leaf)"

text \<open>The leaves with their paths as written: without the leading dot, and for a composed
  resource without the protected ones.\<close>

definition written :: "gval \<Rightarrow> (string \<times> gval) list" where
  "written data = map (\<lambda>l. (trim_prefix (fst l) ''.'', snd l)) (leaves data [])"

definition unprotected :: "(string \<times> gval) list \<Rightarrow> (string \<times> gval) list" where
  "unprotected ls = filter (\<lambda>l. fst l \<notin> protected_paths) ls"

lemma set_leaf_composed_loop:
  "loop (set_leaf K ow) (SetComposed (Some r)) ls =
     bind_result (loop (write_leaf K ow) r
        (unprotected (map (\<lambda>l. (trim_prefix (fst l) ''.'', snd l)) ls)))
       (\<lambda>r'. Inr (SetComposed (Some r')))"
  by (induction ls arbitrary: r)
     (auto simp: set_leaf_def Let_def unprotected_def write_leaf_def bind_result_assoc
        intro: bind_result_cong)

lemma set_leaf_composite_loop:
  "loop (set_leaf K ow) (SetComposite (Some r)) ls =
     bind_result (loop (write_leaf K ow) r (map (\<lambda>l. (trim_prefix (fst l) ''.'', snd l)) ls))
       (\<lambda>r'. Inr (SetComposite (Some r')))"
  by (induction ls arbitrary: r)
     (auto simp: set_leaf_def Let_def write_leaf_def bind_result_assoc intro: bind_result_cong)

lemma SetData_composed:
  "SetData K data [] (SetComposed (Some r)) ow =
     bind_result (loop (write_leaf K ow) r (unprotected (written data)))
       (\<lambda>r'. Inr (SetComposed (Some r')))"
  by (simp add: SetData_leaves set_leaf_composed_loop written_def)

lemma SetData_composite:
  "SetData K data [] (SetComposite (Some r)) ow =
     bind_result (loop (write_leaf K ow) r (written data)) (\<lambda>r'. Inr (SetComposite (Some r')))"
  by (simp add: SetData_leaves set_leaf_composite_loop written_def)

lemma write_leaf_Inr:
  "write_leaf K ow r l = Inr r' \<Longrightarrow> SetValue K r (fst l) (snd l) = Inr r'"
  by (auto simp: write_leaf_def write_value_def result_simps split: lookup.splits if_splits)

lemma write_leaf_guard:
  "write_leaf K False r l = Inr r' \<Longrightarrow> GetValue K r (fst l) = Found v \<Longrightarrow> v = GNil"
  by (auto simp: write_leaf_def write_value_def split: if_splits)

text \<open>After the writes, every leaf that no later write disturbs is read back, and what no write
  disturbs is as before.\<close>

lemma write_loop_reads:
  assumes "path_laws K clash" and "loop (write_leaf K ow) r ls = Inr r'"
    and "sorted_wrt (\<lambda>a b. \<not> clash (fst b) (fst a)) ls"
  shows "(\<forall>l \<in> set ls. GetValue K r' (fst l) = Found (snd l)) \<and>
     (\<forall>q. (\<forall>l \<in> set ls. \<not> clash (fst l) q) \<longrightarrow> GetValue K r' q = GetValue K r q)"
  using assms(2,3)
proof (induction ls arbitrary: r)
  case (Cons l ls)
  then obtain r1 where r1: "write_leaf K ow r l = Inr r1" "loop (write_leaf K ow) r1 ls = Inr r'"
    by (auto simp: result_simps)
  then have set: "SetValue K r (fst l) (snd l) = Inr r1" by (blast dest: write_leaf_Inr)
  have IH: "(\<forall>l \<in> set ls. GetValue K r' (fst l) = Found (snd l)) \<and>
     (\<forall>q. (\<forall>l \<in> set ls. \<not> clash (fst l) q) \<longrightarrow> GetValue K r' q = GetValue K r1 q)"
    using Cons.IH [OF r1(2)] Cons.prems(2) by simp
  moreover have "GetValue K r1 (fst l) = Found (snd l)"
    and "\<not> clash (fst l) q \<Longrightarrow> GetValue K r1 q = GetValue K r q" for q
    using assms(1) set by (auto simp: path_laws_def)
  moreover have "\<forall>x \<in> set ls. \<not> clash (fst x) (fst l)" using Cons.prems(2) by simp
  ultimately show ?case by simp
qed simp

lemma write_loop_frame:
  assumes "path_laws K clash" and "loop (write_leaf K ow) u ls = Inr u'"
    and "\<forall>l \<in> set ls. \<not> clash (fst l) q"
  shows "GetValue K u' q = GetValue K u q"
  using assms(2,3)
proof (induction ls arbitrary: u)
  case (Cons l ls)
  then obtain u1 where u1: "write_leaf K ow u l = Inr u1" "loop (write_leaf K ow) u1 ls = Inr u'"
    by (auto simp: result_simps)
  then have "GetValue K u1 q = GetValue K u q"
    using assms(1) Cons.prems(2) write_leaf_Inr [OF u1(1)] by (auto simp: path_laws_def)
  with Cons.IH [OF u1(2)] Cons.prems(2) show ?case by simp
qed simp

lemma write_loop_keeps:
  assumes "path_laws K clash" and "loop (write_leaf K False) r ls = Inr r'"
    and "\<forall>l \<in> set ls. clash (fst l) q \<longrightarrow> fst l = q"
    and "GetValue K r q = Found v" and "v \<noteq> GNil"
  shows "GetValue K r' q = Found v"
  using assms(2-4)
proof (induction ls arbitrary: r)
  case (Cons l ls)
  then obtain r1 where r1: "write_leaf K False r l = Inr r1" "loop (write_leaf K False) r1 ls = Inr r'"
    by (auto simp: result_simps)
  have "fst l \<noteq> q" using write_leaf_guard [OF r1(1)] Cons.prems(3) assms(5) by auto
  then have "\<not> clash (fst l) q" using Cons.prems(2) by auto
  then have "GetValue K r1 q = Found v"
    using assms(1) write_leaf_Inr [OF r1(1)] Cons.prems(3) by (auto simp: path_laws_def)
  then show ?case using Cons.IH [OF r1(2)] Cons.prems(2) by simp
qed simp

section \<open>Properties\<close>

text \<open>C22: \<open>SetData\<close> protects what it must not change, when the paths of the data disturb that path
  at most by being the same one. On a composed resource \<open>apiVersion\<close>, \<open>kind\<close> and \<open>metadata.name\<close>
  keep their values whatever the data says, with and without \<open>overwrite\<close>. Without \<open>overwrite\<close>, on a
  composed resource and on the composite, a successful call leaves every value that was set and
  not null.\<close>

theorem SetData_protects:
  assumes "path_laws K clash" and "\<forall>l \<in> set (written data). clash (fst l) q \<longrightarrow> fst l = q"
  shows "(SetData K data [] (SetComposed (Some r)) ow = Inr (SetComposed (Some r')) \<and>
      (q \<in> {''apiVersion'', ''kind'', ''metadata.name''} \<or> \<not> ow \<and> GetValue K r q = Found v \<and> v \<noteq> GNil) \<longrightarrow>
      GetValue K r' q = GetValue K r q) \<and>
    (SetData K data [] (SetComposite (Some r)) False = Inr (SetComposite (Some r')) \<and>
      GetValue K r q = Found v \<and> v \<noteq> GNil \<longrightarrow> GetValue K r' q = Found v)"
proof (intro conjI impI; elim conjE)
  assume "SetData K data [] (SetComposed (Some r)) ow = Inr (SetComposed (Some r'))"
    and q: "q \<in> {''apiVersion'', ''kind'', ''metadata.name''} \<or> \<not> ow \<and> GetValue K r q = Found v \<and> v \<noteq> GNil"
  then have run: "loop (write_leaf K ow) r (unprotected (written data)) = Inr r'"
    by (auto simp: SetData_composed result_simps)
  have sub: "\<forall>l \<in> set (unprotected (written data)). clash (fst l) q \<longrightarrow> fst l = q"
    using assms(2) by (auto simp: unprotected_def)
  from q show "GetValue K r' q = GetValue K r q"
  proof
    assume "q \<in> {''apiVersion'', ''kind'', ''metadata.name''}"
    then have "\<forall>l \<in> set (unprotected (written data)). \<not> clash (fst l) q"
      using sub by (auto simp: unprotected_def protected_paths_def)
    with write_loop_frame [OF assms(1) run] show ?thesis by blast
  next
    assume "\<not> ow \<and> GetValue K r q = Found v \<and> v \<noteq> GNil"
    with write_loop_keeps [OF assms(1) _ sub] run show ?thesis by simp
  qed
next
  assume "SetData K data [] (SetComposite (Some r)) False = Inr (SetComposite (Some r'))"
    and v: "GetValue K r q = Found v" "v \<noteq> GNil"
  then have "loop (write_leaf K False) r (written data) = Inr r'"
    by (auto simp: SetData_composite result_simps)
  from write_loop_keeps [OF assms(1) this assms(2) v] show "GetValue K r' q = Found v" .
qed

theorem SetData_protects_witness:
  "SetData example_kube (GMap [(''kind'', GString ''B''), (''x'', GInt 2)]) []
     (SetComposed (Some [(''kind'', GString ''A''), (''x'', GInt 1)])) True =
     Inr (SetComposed (Some [(''kind'', GString ''A''), (''x'', GInt 2)])) \<and>
   GetValue example_kube [(''kind'', GString ''A''), (''x'', GInt 2)] ''kind'' = Found (GString ''A'')"
proof -
  let ?d = "GMap [(''kind'', GString ''B''), (''x'', GInt 2)]"
  let ?r = "[(''kind'', GString ''A''), (''x'', GInt 1)]" and ?r' = "[(''kind'', GString ''A''), (''x'', GInt 2)]"
  have written: "written ?d = [(''kind'', GString ''B''), (''x'', GInt 2)]"
    by (simp add: written_def child_key_def is_wrapped_def has_suffix_def trim_prefix_def has_prefix_def)
  have run: "SetData example_kube ?d [] (SetComposed (Some ?r)) True = Inr (SetComposed (Some ?r'))"
    by (simp add: SetData_composed written unprotected_def protected_paths_def write_leaf_def write_value_def)
       (simp add: example_kube_def)
  have "\<forall>l \<in> set (written ?d). fst l = ''kind'' \<longrightarrow> fst l = ''kind''" by simp
  from SetData_protects [OF example_path_laws this, of ?r True ?r' GNil] run
  have "GetValue example_kube ?r' ''kind'' = GetValue example_kube ?r ''kind''" by blast
  with run show ?thesis by (simp add: example_kube_def)
qed

text \<open>C23: when \<open>SetData\<close> succeeds on a composed resource, every unprotected leaf of the data can
  be read back at its path, provided no later leaf's path disturbs an earlier one, and every
  path that no written leaf disturbs has the value it had before.\<close>

theorem SetData_writes_leaves:
  assumes "path_laws K clash"
    and "SetData K data [] (SetComposed (Some r)) ow = Inr (SetComposed (Some r'))"
    and "sorted_wrt (\<lambda>a b. \<not> clash (fst b) (fst a)) (unprotected (written data))"
  shows "(\<forall>l \<in> set (unprotected (written data)). GetValue K r' (fst l) = Found (snd l)) \<and>
     (\<forall>q. (\<forall>l \<in> set (unprotected (written data)). \<not> clash (fst l) q) \<longrightarrow>
        GetValue K r' q = GetValue K r q)"
proof -
  have "loop (write_leaf K ow) r (unprotected (written data)) = Inr r'"
    using assms(2) by (auto simp: SetData_composed result_simps)
  from write_loop_reads [OF assms(1) this assms(3)] show ?thesis .
qed

definition example_patch :: gval where
  "example_patch = GMap [(''kind'', GString ''Other''), (''data'', GMap [(''x'', GInt 1)])]"

lemma example_patch_written:
  "unprotected (written example_patch) = [(''data.x'', GInt 1)]"
  by (simp add: example_patch_def written_def unprotected_def child_key_def is_wrapped_def
      has_suffix_def trim_prefix_def has_prefix_def protected_paths_def)

theorem SetData_writes_leaves_witness:
  "SetData example_kube example_patch [] (SetComposed (Some [(''kind'', GString ''CD'')])) True =
     Inr (SetComposed (Some [(''kind'', GString ''CD''), (''data.x'', GInt 1)])) \<and>
   GetValue example_kube [(''kind'', GString ''CD''), (''data.x'', GInt 1)] ''data.x'' = Found (GInt 1)"
proof -
  let ?r = "[(''kind'', GString ''CD'')]" and ?r' = "[(''kind'', GString ''CD''), (''data.x'', GInt 1)]"
  have run: "SetData example_kube example_patch [] (SetComposed (Some ?r)) True =
      Inr (SetComposed (Some ?r'))"
    by (simp add: SetData_composed example_patch_written write_leaf_def write_value_def
        example_kube_def)
  have "sorted_wrt (\<lambda>a b. \<not> fst b = fst a) (unprotected (written example_patch))"
    by (simp add: example_patch_written)
  from SetData_writes_leaves [OF example_path_laws run this] run show ?thesis
    by (simp add: example_patch_written)
qed

text \<open>C40: outside annotations and labels, a key that contains a dot is written exactly as two
  nested keys: the data \<open>{"a.b": v}\<close> and \<open>{"a": {"b": v}}\<close> are not told apart.\<close>

theorem SetData_dotted_key:
  assumes "\<not> is_wrapped path" and "\<not> is_wrapped (path @ ''.'' @ a)"
  shows "SetData K (GMap [(a @ ''.'' @ b, v)]) path target ow =
         SetData K (GMap [(a, GMap [(b, v)])]) path target ow"
  using assms by (simp add: child_key_def)

theorem SetData_dotted_key_witness:
  "SetData example_kube (GMap [(''app.yaml'', GString ''x'')]) ''.data'' (SetComposed (Some [])) True =
   SetData example_kube (GMap [(''app'', GMap [(''yaml'', GString ''x'')])]) ''.data''
     (SetComposed (Some [])) True"
  using SetData_dotted_key [of "''.data''" "''app''" example_kube "''yaml''" "GString ''x''"
      "SetComposed (Some [])" True]
  by (simp add: is_wrapped_def has_suffix_def)

fun leaf_free :: "gval \<Rightarrow> bool" where
  "leaf_free (GMap es) \<longleftrightarrow> (\<forall>e \<in> set es. leaf_free (snd e))"
| "leaf_free (GSlice xs) \<longleftrightarrow> (\<forall>x \<in> set xs. leaf_free x)"
| "leaf_free _ \<longleftrightarrow> False"

lemma leaves_leaf_free:
  "leaves v path = [] \<longleftrightarrow> leaf_free v"
  "leaves_entries es path = [] \<longleftrightarrow> (\<forall>e \<in> set es. leaf_free (snd e))"
  "leaves_elements xs i path = [] \<longleftrightarrow> (\<forall>x \<in> set xs. leaf_free x)"
  by (induction v path and es path and xs i path
      rule: leaves_leaves_entries_leaves_elements.induct) auto

text \<open>Empty maps and lists have no leaves, so patch data that holds only such values changes
  nothing, whatever the target holds there, and cannot fail either.\<close>

theorem SetData_ignores_empty_values:
  assumes "leaf_free data"
  shows "SetData K data path target ow = Inr target"
  using assms by (simp add: SetData_leaves leaves_leaf_free(1) [THEN iffD2])

theorem SetData_ignores_empty_values_witness:
  "SetData example_kube (GMap [(''spec'', GMap [(''tags'', GSlice [])])]) []
     (SetComposed (Some [(''spec.tags'', GInt 1)])) True = Inr (SetComposed (Some [(''spec.tags'', GInt 1)]))"
  by (rule SetData_ignores_empty_values) simp

end
