(* ===== verification/Normalize.thy ===== *)
theory Normalize
  imports Prelude
begin

text \<open>
  The decoding side of \<open>pkg/resource/res.go\<close>: \<open>normalizeMap\<close>, which turns the
  \<open>map[interface{}]interface{}\<close> values of yaml.v2 into string-keyed maps, the document loop
  \<open>DataResourcesFromYaml\<close>, and the small \<open>RawExtension\<close> conversions. The YAML splitter and
  decoder and the JSON codecs are parameters.
\<close>

section \<open>normalizeMap\<close>

fun normalizeMap :: "gval \<Rightarrow> go_error + gval"
  and normalize_entries :: "(gval \<times> gval) list \<Rightarrow> gval gomap \<Rightarrow> go_error + gval gomap"
  and normalize_slice :: "gval list \<Rightarrow> go_error + gval list"
where
  "normalizeMap (GAnyMap es) = bind_result (normalize_entries es []) (\<lambda>m. Inr (GMap m))"
| "normalizeMap (GSlice xs) = bind_result (normalize_slice xs) (\<lambda>ys. Inr (GSlice ys))"
| "normalizeMap v = Inr v"
| "normalize_entries [] normalized = Inr normalized"
| "normalize_entries ((GString strKey, v) # es) normalized =
     bind_result (normalizeMap v) (\<lambda>v'. normalize_entries es (AList.update strKey v' normalized))"
| "normalize_entries ((_, v) # es) normalized = Inl NonStringKey"
| "normalize_slice [] = Inr []"
| "normalize_slice (x # xs) =
     bind_result (normalizeMap x) (\<lambda>y. bind_result (normalize_slice xs) (\<lambda>ys. Inr (y # ys)))"

text \<open>What the decoder of yaml.v2 yields: no string-keyed map anywhere.\<close>

fun yaml_value :: "gval \<Rightarrow> bool"
where
  "yaml_value (GMap _) = False"
| "yaml_value (GAnyMap es) = (\<forall>e \<in> set es. yaml_value (fst e) \<and> yaml_value (snd e))"
| "yaml_value (GSlice xs) = (\<forall>x \<in> set xs. yaml_value x)"
| "yaml_value _ = True"

text \<open>What JSON encoding needs: no map with arbitrary keys anywhere.\<close>

fun json_value :: "gval \<Rightarrow> bool"
where
  "json_value (GMap es) = (wf_gomap es \<and> (\<forall>e \<in> set es. json_value (snd e)))"
| "json_value (GAnyMap _) = False"
| "json_value (GSlice xs) = (\<forall>x \<in> set xs. json_value x)"
| "json_value _ = True"

text \<open>Every key the code visits is a string.\<close>

fun string_keys :: "gval \<Rightarrow> bool"
where
  "string_keys (GAnyMap es) =
     (\<forall>e \<in> set es. (\<exists>s. fst e = GString s) \<and> string_keys (snd e))"
| "string_keys (GSlice xs) = (\<forall>x \<in> set xs. string_keys x)"
| "string_keys _ = True"

lemma update_set_subset: "set (AList.update k v m) \<subseteq> insert (k, v) (set m)"
  by (induction m) auto

lemma normalize_json:
  "yaml_value v \<Longrightarrow> normalizeMap v = Inr w \<Longrightarrow> json_value w"
  "(\<forall>e \<in> set es. yaml_value (snd e)) \<Longrightarrow> normalize_entries es m = Inr m' \<Longrightarrow>
     json_value (GMap m) \<Longrightarrow> json_value (GMap m')"
  "(\<forall>x \<in> set xs. yaml_value x) \<Longrightarrow> normalize_slice xs = Inr ys \<Longrightarrow> (\<forall>y \<in> set ys. json_value y)"
proof (induction v and es m and xs arbitrary: w and m' and ys
    rule: normalizeMap_normalize_entries_normalize_slice.induct)
  case (5 strKey v es normalized)
  from "5.prems"(2) obtain v' where v': "normalizeMap v = Inr v'"
    "normalize_entries es (AList.update strKey v' normalized) = Inr m'"
    by (auto simp: result_simps)
  have "json_value v'" using "5.IH"(1) "5.prems"(1) v'(1) by simp
  then have "json_value (GMap (AList.update strKey v' normalized))"
    using "5.prems"(3) update_set_subset [of strKey v' normalized] by (auto simp: gomap_simps)
  then show ?case using "5.IH"(2) [OF _ _ v'(2)] "5.prems"(1) v'(1) by simp
qed (fastforce simp: result_simps)+

lemma normalize_ok_iff:
  "is_ok (normalizeMap v) \<longleftrightarrow> string_keys v"
  "is_ok (normalize_entries es m) \<longleftrightarrow>
     (\<forall>e \<in> set es. (\<exists>s. fst e = GString s) \<and> string_keys (snd e))"
  "is_ok (normalize_slice xs) \<longleftrightarrow> (\<forall>x \<in> set xs. string_keys x)"
  by (induction v and es m and xs rule: normalizeMap_normalize_entries_normalize_slice.induct)
     (auto simp: is_ok_bind split: sum.splits)

lemma normalize_error_kind:
  "normalizeMap v = Inl e \<Longrightarrow> e = NonStringKey"
  "normalize_entries es m = Inl e \<Longrightarrow> e = NonStringKey"
  "normalize_slice xs = Inl e \<Longrightarrow> e = NonStringKey"
  by (induction v and es m and xs rule: normalizeMap_normalize_entries_normalize_slice.induct)
     (auto simp: result_simps)

text \<open>Without string-keyed maps and repeated keys, normalising only relabels the maps.\<close>

fun key_string :: "gval \<Rightarrow> string" where
  "key_string (GString s) = s"
| "key_string _ = []"

fun stringify :: "gval \<Rightarrow> gval" where
  "stringify (GAnyMap es) = GMap (map (\<lambda>e. (key_string (fst e), stringify (snd e))) es)"
| "stringify (GSlice xs) = GSlice (map stringify xs)"
| "stringify v = v"

fun distinct_keys :: "gval \<Rightarrow> bool" where
  "distinct_keys (GAnyMap es) \<longleftrightarrow> distinct (map fst es) \<and> (\<forall>e \<in> set es. distinct_keys (snd e))"
| "distinct_keys (GSlice xs) \<longleftrightarrow> (\<forall>x \<in> set xs. distinct_keys x)"
| "distinct_keys _ = True"

lemma update_fresh: "k \<notin> fst ` set m \<Longrightarrow> AList.update k v m = m @ [(k, v)]"
  by (induction m) auto

lemma normalize_stringify:
  "string_keys v \<Longrightarrow> distinct_keys v \<Longrightarrow> normalizeMap v = Inr (stringify v)"
  "(\<forall>e \<in> set es. (\<exists>s. fst e = GString s) \<and> string_keys (snd e) \<and> distinct_keys (snd e)) \<Longrightarrow>
     distinct (map fst es) \<Longrightarrow> (\<forall>e \<in> set es. key_string (fst e) \<notin> fst ` set m) \<Longrightarrow>
     normalize_entries es m = Inr (m @ map (\<lambda>e. (key_string (fst e), stringify (snd e))) es)"
  "(\<forall>x \<in> set xs. string_keys x \<and> distinct_keys x) \<Longrightarrow>
     normalize_slice xs = Inr (map stringify xs)"
  by (induction v and es m and xs rule: normalizeMap_normalize_entries_normalize_slice.induct)
     (auto simp: update_fresh, force+)

lemma normalize_slice_id:
  "(\<And>x. x \<in> set xs \<Longrightarrow> normalizeMap x = Inr x) \<Longrightarrow> normalize_slice xs = Inr xs"
  by (induction xs) auto

lemma json_value_normalized: "json_value v \<Longrightarrow> normalizeMap v = Inr v"
  by (induction v rule: json_value.induct) (auto simp: normalize_slice_id)

section \<open>Raw extensions\<close>

record RawExtension =
  Raw :: string

text \<open>
  A Go pointer is an \<open>option\<close>; the JSON codecs of the libraries are the first arguments. The decoder
  fills a map variable, which JSON \<open>null\<close> leaves nil: the \<open>Object\<close> of what
  \<open>JsonByteToUnstructured\<close> returns is \<open>None\<close> then, and \<open>Some []\<close> for an empty object.
\<close>

definition JsonByteToUnstructured ::
  "(string \<Rightarrow> go_error + obj option) \<Rightarrow> string \<Rightarrow> go_error + obj option" where
  "JsonByteToUnstructured Unmarshal jsonByte = bind_result (Unmarshal jsonByte) (\<lambda>data. Inr data)"

definition UnstructuredToRawExtension ::
  "('u \<Rightarrow> go_error + string) \<Rightarrow> 'u option \<Rightarrow> go_error + RawExtension" where
  "UnstructuredToRawExtension MarshalJSON obj =
     (case obj of
       None \<Rightarrow> Inr \<lparr>Raw = []\<rparr>
     | Some u \<Rightarrow> bind_result (MarshalJSON u) (\<lambda>raw. Inr \<lparr>Raw = raw\<rparr>))"

definition ObjToRawExtension ::
  "('a \<Rightarrow> go_error + string) \<Rightarrow> 'a option \<Rightarrow> go_error + RawExtension" where
  "ObjToRawExtension Marshal obj =
     (case obj of
       None \<Rightarrow> Inr \<lparr>Raw = []\<rparr>
     | Some x \<Rightarrow> bind_result (Marshal x) (\<lambda>raw. Inr \<lparr>Raw = raw\<rparr>))"

definition JsonByteToRawExtension ::
  "(string \<Rightarrow> go_error + obj option) \<Rightarrow> (obj option \<Rightarrow> go_error + string) \<Rightarrow> string \<Rightarrow>
   go_error + RawExtension"
where
  "JsonByteToRawExtension Unmarshal MarshalJSON jsonByte =
     bind_result (JsonByteToUnstructured Unmarshal jsonByte)
       (\<lambda>u. UnstructuredToRawExtension MarshalJSON (Some u))"

section \<open>DataResourcesFromYaml\<close>

text \<open>One document: the type assertion to \<open>map[string]interface{}\<close> panics on a scalar or a list.\<close>

definition document_object :: "(string \<Rightarrow> go_error + gval) \<Rightarrow> string \<Rightarrow> failure + obj option" where
  "document_object Unmarshal b =
     bind_result (lift_error (Unmarshal b)) (\<lambda>data.
     bind_result (lift_error (normalizeMap data)) (\<lambda>normalizedData.
       case normalizedData of
         GNil \<Rightarrow> Inr None
       | GMap m \<Rightarrow> Inr (Some m)
       | _ \<Rightarrow> Inl (Panic BadTypeAssertion)))"

definition document_step ::
  "(string \<Rightarrow> go_error + gval) \<Rightarrow> obj list \<Rightarrow> string \<Rightarrow> failure + obj list" where
  "document_step Unmarshal result b =
     bind_result (document_object Unmarshal b) (\<lambda>d.
       case d of None \<Rightarrow> Inr result | Some m \<Rightarrow> Inr (result @ [m]))"

definition DataResourcesFromYaml ::
  "(string \<Rightarrow> go_error + string list) \<Rightarrow> (string \<Rightarrow> go_error + gval) \<Rightarrow> string \<Rightarrow> failure + obj list"
where
  "DataResourcesFromYaml SplitDocuments Unmarshal input =
     bind_result (lift_error (SplitDocuments input)) (\<lambda>docs.
       loop (document_step Unmarshal) [] docs)"

text \<open>A decoded document as the function can use it: null, or a map with string keys throughout.\<close>

definition usable :: "gval \<Rightarrow> bool" where
  "usable v \<longleftrightarrow> v = GNil \<or> (\<exists>es. v = GAnyMap es \<and> string_keys v)"

lemma document_object_iff:
  assumes "un b = Inr v" and "yaml_value v"
  shows "document_object un b = Inr d \<longleftrightarrow> usable v \<and>
    (case d of None \<Rightarrow> v = GNil | Some m \<Rightarrow> normalizeMap v = Inr (GMap m))"
proof (cases v)
  case (GAnyMap es)
  show ?thesis
  proof (cases "normalize_entries es []")
    case (Inr m)
    then have "string_keys v" using normalize_ok_iff(1) [of v] GAnyMap by (simp add: result_simps)
    with Inr GAnyMap assms show ?thesis
      by (auto simp: document_object_def usable_def split: option.split)
  next
    case (Inl e)
    then have "\<not> string_keys v" using normalize_ok_iff(1) [of v] GAnyMap by (auto simp: is_ok_bind)
    with Inl GAnyMap assms show ?thesis by (auto simp: document_object_def usable_def)
  qed
qed (use assms in \<open>auto simp: document_object_def usable_def result_simps split: option.split\<close>)

lemma document_loop_iff:
  assumes "\<And>b v. un b = Inr v \<Longrightarrow> yaml_value v"
  shows "loop (document_step un) acc docs = Inr rs \<longleftrightarrow>
    (\<exists>vs ms. rs = acc @ ms \<and> list_all2 (\<lambda>b v. un b = Inr v) docs vs \<and> list_all usable vs \<and>
       list_all2 (\<lambda>v m. normalizeMap v = Inr (GMap m)) (filter (\<lambda>v. v \<noteq> GNil) vs) ms)"
proof (induction docs arbitrary: acc)
  case (Cons b docs)
  show ?case
  proof (cases "un b")
    case (Inr v)
    have iff: "document_object un b = Inr d \<longleftrightarrow> usable v \<and>
        (case d of None \<Rightarrow> v = GNil | Some m \<Rightarrow> normalizeMap v = Inr (GMap m))" for d
      by (rule document_object_iff) (use Inr assms in blast)+
    show ?thesis
    proof (cases "document_object un b")
      case (Inl e)
      then have "\<not> (usable v \<and> (v = GNil \<or> (\<exists>m. normalizeMap v = Inr (GMap m))))"
        using iff [of None] iff [of "Some m" for m] by auto
      then show ?thesis
        using Inl Inr by (auto simp: document_step_def list_all2_Cons1)
    next
      case ok: (Inr d)
      with iff have d: "usable v" "case d of None \<Rightarrow> v = GNil | Some m \<Rightarrow> normalizeMap v = Inr (GMap m)"
        by auto
      show ?thesis
      proof (cases d)
        case None
        with ok have "document_step un acc b = Inr acc" by (simp add: document_step_def)
        with None d Inr show ?thesis by (force simp: list_all2_Cons1 Cons.IH)
      next
        case (Some m)
        with d have "v \<noteq> GNil" by auto
        moreover from Some ok have "document_step un acc b = Inr (acc @ [m])"
          by (simp add: document_step_def)
        ultimately show ?thesis using Some d Inr by (force simp: list_all2_Cons1 Cons.IH)
      qed
    qed
  qed (auto simp: document_step_def document_object_def list_all2_Cons1)
qed auto

lemma document_step_panic:
  assumes "document_step un acc b = Inl (Panic p)"
  shows "p = BadTypeAssertion \<and>
    (\<exists>v w. un b = Inr v \<and> normalizeMap v = Inr w \<and> w \<noteq> GNil \<and> (\<forall>m. w \<noteq> GMap m))"
proof -
  from assms obtain v w where v: "un b = Inr v" "normalizeMap v = Inr w"
    and w: "(case w of GNil \<Rightarrow> Inr None | GMap m \<Rightarrow> Inr (Some m)
      | _ \<Rightarrow> Inl (Panic BadTypeAssertion)) = (Inl (Panic p) :: failure + obj option)"
    by (auto simp: document_step_def document_object_def result_simps split: option.splits)
  from w have "p = BadTypeAssertion \<and> w \<noteq> GNil \<and> (\<forall>m. w \<noteq> GMap m)" by (cases w) auto
  with v show ?thesis by blast
qed

lemma DataResourcesFromYaml_panic:
  assumes "DataResourcesFromYaml split un input = Inl (Panic p)"
  shows "p = BadTypeAssertion \<and> (\<exists>docs b v w. split input = Inr docs \<and> b \<in> set docs \<and> un b = Inr v \<and>
    normalizeMap v = Inr w \<and> w \<noteq> GNil \<and> (\<forall>m. w \<noteq> GMap m))"
proof -
  have loop: "\<exists>acc' b. b \<in> set docs \<and> document_step un acc' b = Inl (Panic p)"
    if "loop (document_step un) acc docs = Inl (Panic p)" for acc docs
    using that
  proof (induction docs arbitrary: acc)
    case (Cons b docs)
    show ?case
    proof (cases "document_step un acc b")
      case (Inr acc')
      with Cons.prems have "loop (document_step un) acc' docs = Inl (Panic p)" by simp
      with Cons.IH show ?thesis by (meson list.set_intros(2))
    qed (use Cons.prems in auto)
  qed simp
  from assms obtain docs where docs: "split input = Inr docs" "loop (document_step un) [] docs = Inl (Panic p)"
    by (auto simp: DataResourcesFromYaml_def result_simps)
  from loop [OF docs(2)] obtain acc b where "b \<in> set docs" "document_step un acc b = Inl (Panic p)" by blast
  with document_step_panic [OF this(2)] docs(1) show ?thesis by blast
qed

section \<open>Properties\<close>

text \<open>C30: \<open>normalizeMap\<close> fails exactly on a value with a key that is not a string, and then with
  that error; on every value the YAML decoder can produce, its result holds string-keyed maps
  without repeated keys only, at every depth, and normalising once more changes nothing.\<close>

theorem normalizeMap_correct:
  assumes "yaml_value v"
  shows "if string_keys v
         then \<exists>w. normalizeMap v = Inr w \<and> json_value w \<and> normalizeMap w = Inr w
         else normalizeMap v = Inl NonStringKey"
proof (cases "normalizeMap v")
  case (Inl e)
  then show ?thesis
    using normalize_ok_iff(1) [of v] normalize_error_kind(1) [of v e] by auto
next
  case (Inr w)
  then show ?thesis
    using normalize_ok_iff(1) [of v] normalize_json(1) [OF assms Inr] json_value_normalized
    by auto
qed

theorem normalizeMap_correct_witness:
  "normalizeMap (GAnyMap [(GString ''a'', GSlice [GAnyMap [(GString ''b'', GInt 1)]])]) =
     Inr (GMap [(''a'', GSlice [GMap [(''b'', GInt 1)]])]) \<and>
   normalizeMap (GAnyMap [(GInt 1, GNil)]) = Inl NonStringKey"
  using normalizeMap_correct [of "GAnyMap [(GInt 1, GNil)]"] by simp

text \<open>C31: \<open>DataResourcesFromYaml\<close> succeeds exactly when the stream splits and every document
  decodes either to null or to a map whose keys are strings at every depth. Its result is then, in
  the order of the documents, the normalised map of each document that is not null, and every
  object in it is JSON-shaped.\<close>

theorem DataResourcesFromYaml_correct:
  assumes "\<And>b v. un b = Inr v \<Longrightarrow> yaml_value v"
  shows "DataResourcesFromYaml split un input = Inr rs \<longleftrightarrow>
     (\<exists>docs vs. split input = Inr docs \<and> list_all2 (\<lambda>b v. un b = Inr v) docs vs \<and>
        (\<forall>v \<in> set vs. v = GNil \<or> (\<exists>es. v = GAnyMap es \<and> string_keys v)) \<and>
        list_all2 (\<lambda>v m. normalizeMap v = Inr (GMap m) \<and> json_value (GMap m))
          (filter (\<lambda>v. v \<noteq> GNil) vs) rs)"
proof -
  have json: "list_all2 (\<lambda>v m. normalizeMap v = Inr (GMap m)) (filter (\<lambda>v. v \<noteq> GNil) vs) rs =
      list_all2 (\<lambda>v m. normalizeMap v = Inr (GMap m) \<and> json_value (GMap m)) (filter (\<lambda>v. v \<noteq> GNil) vs) rs"
    if "list_all2 (\<lambda>b v. un b = Inr v) docs vs" for docs vs
  proof -
    have "yaml_value v" if "v \<in> set vs" for v
      using \<open>list_all2 _ docs vs\<close> that assms by (auto simp: list_all2_conv_all_nth in_set_conv_nth)
    then have "json_value (GMap m)" if "v \<in> set vs" "normalizeMap v = Inr (GMap m)" for v m
      using normalize_json(1) that by blast
    then show ?thesis by (intro list.rel_cong refl) (auto simp del: json_value.simps)
  qed
  show ?thesis
    unfolding DataResourcesFromYaml_def
    using json by (simp add: result_simps document_loop_iff [OF assms] list_all_iff usable_def
        del: json_value.simps) blast
qed

theorem DataResourcesFromYaml_correct_witness:
  "DataResourcesFromYaml (\<lambda>s. Inr [''null'', s])
     (\<lambda>b. Inr (if b = ''doc'' then GAnyMap [(GString ''kind'', GString ''CD'')] else GNil)) ''doc'' =
     Inr [[(''kind'', GString ''CD'')]] \<and>
   DataResourcesFromYaml (\<lambda>s. Inr [''null'', s]) (\<lambda>b. Inr (GAnyMap [(GInt 1, GNil)])) ''doc'' \<noteq> Inr []"
proof
  let ?un = "\<lambda>b. Inr (if b = ''doc'' then GAnyMap [(GString ''kind'', GString ''CD'')] else GNil)"
  have yaml: "\<And>b v. ?un b = Inr v \<Longrightarrow> yaml_value v" by auto
  show "DataResourcesFromYaml (\<lambda>s. Inr [''null'', s]) ?un ''doc'' = Inr [[(''kind'', GString ''CD'')]]"
    by (rule DataResourcesFromYaml_correct [OF yaml, THEN iffD2])
       (auto intro!: exI [of _ "[GNil, GAnyMap [(GString ''kind'', GString ''CD'')]]"])
  let ?bad = "\<lambda>b :: string. Inr (GAnyMap [(GInt 1, GNil)]) :: go_error + gval"
  have yaml: "\<And>b v. ?bad b = Inr v \<Longrightarrow> yaml_value v" by auto
  show "DataResourcesFromYaml (\<lambda>s. Inr [''null'', s]) ?bad ''doc'' \<noteq> Inr []"
    using DataResourcesFromYaml_correct [where un = ?bad, OF yaml, where split = "\<lambda>s. Inr [''null'', s]"
        and input = "''doc''" and rs = "[]"]
    by (auto simp: list_all2_Cons1)
qed



end
