(* ===== verification/KCL_Input.thy ===== *)
theory KCL_Input
  imports Normalize Go_Strings
begin

text \<open>
  \<open>input/v1alpha1/input.go\<close>: the records of the function's input, the target names of
  \<open>pkg/resource/res.go\<close>, and \<open>Validate\<close>, which checks the input and replaces an unknown target
  by the default one.
\<close>

section \<open>Targets\<close>

type_synonym target = string

definition PatchDesired :: target where "PatchDesired = ''PatchDesired''"
definition PatchResources :: target where "PatchResources = ''PatchResources''"
definition Resources :: target where "Resources = ''Resources''"
definition XR :: target where "XR = ''XR''"
definition Default :: target where "Default = ''Default''"

lemmas target_defs = PatchDesired_def PatchResources_def Resources_def XR_def Default_def

definition targets :: "target set" where
  "targets = {Default, PatchDesired, PatchResources, Resources, XR}"

lemma targets_distinct [simp]:
  "Default \<noteq> PatchDesired" "Default \<noteq> PatchResources" "Default \<noteq> Resources" "Default \<noteq> XR"
  "PatchDesired \<noteq> Default" "PatchDesired \<noteq> PatchResources" "PatchDesired \<noteq> Resources"
  "PatchDesired \<noteq> XR" "PatchResources \<noteq> Default" "PatchResources \<noteq> PatchDesired"
  "PatchResources \<noteq> Resources" "PatchResources \<noteq> XR" "Resources \<noteq> Default"
  "Resources \<noteq> PatchDesired" "Resources \<noteq> PatchResources" "Resources \<noteq> XR"
  "XR \<noteq> Default" "XR \<noteq> PatchDesired" "XR \<noteq> PatchResources" "XR \<noteq> Resources"
  by (simp_all add: target_defs)

section \<open>The input records\<close>

record ConfigSpec =
  Arguments :: "string list"
  Settings :: "string list"
  Overrides :: "string list"
  PathSelectors :: "string list"
  Vendor :: bool
  SortKeys :: bool
  ShowHidden :: bool
  DisableNone :: bool
  Debug :: bool
  StrictRangeCheck :: bool

record CredSpec =
  Url :: string
  Username :: string
  Password :: string

text \<open>An entry of \<open>spec.resources\<close>; the pointer \<open>Base\<close> may be nil.\<close>

record InputResource =
  Name :: string
  Base :: "RawExtension option"

record RunSpec =
  Source :: string
  Config :: ConfigSpec
  Credentials :: CredSpec
  Dependencies :: string
  Params :: "RawExtension gomap option"
  spec_Resources :: "InputResource list"
  Target :: target

record KCLInput =
  APIVersion :: string
  Kind :: string
  input_Name :: string
  Spec :: RunSpec

definition set_Target :: "target \<Rightarrow> KCLInput \<Rightarrow> KCLInput" where
  "set_Target t i = i\<lparr>Spec := (Spec i)\<lparr>Target := t\<rparr>\<rparr>"

lemma set_Target_simps [simp]:
  "Target (Spec (set_Target t i)) = t"
  "Source (Spec (set_Target t i)) = Source (Spec i)"
  "spec_Resources (Spec (set_Target t i)) = spec_Resources (Spec i)"
  "Params (Spec (set_Target t i)) = Params (Spec i)"
  "set_Target (Target (Spec i)) i = i"
  by (simp_all add: set_Target_def)

section \<open>Validate\<close>

text \<open>The loop over \<open>spec.resources\<close>, with the index of the entry it stands at.\<close>

fun validate_resources :: "nat \<Rightarrow> InputResource list \<Rightarrow> go_error option" where
  "validate_resources i [] = None"
| "validate_resources i (r # rs) =
     (if Name r = [] then
        Some (FieldRequired (''spec.Resources['' @ itoa i @ ''].name'') ''name cannot be empty'')
      else if Base r = None then
        Some (FieldRequired (''spec.Resources['' @ itoa i @ ''].base'') ''base cannot be empty'')
      else validate_resources (Suc i) rs)"

definition Validate :: "KCLInput \<Rightarrow> go_error + KCLInput" where
  "Validate i =
     (if Source (Spec i) = [] then
        Inl (FieldRequired ''spec.source'' ''kcl source cannot be empty'')
      else if Target (Spec i) \<in> {Default, PatchDesired, Resources, XR} then Inr i
      else if Target (Spec i) = PatchResources then
        (if length (spec_Resources (Spec i)) = 0 then
           Inl (FieldRequired ''spec.Resources''
             (PatchResources @ '' target requires at least one resource''))
         else case validate_resources 0 (spec_Resources (Spec i)) of
           Some e \<Rightarrow> Inl e
         | None \<Rightarrow> Inr i)
      else Inr (set_Target Default i))"

definition complete_resource :: "InputResource \<Rightarrow> bool" where
  "complete_resource r \<longleftrightarrow> Name r \<noteq> [] \<and> Base r \<noteq> None"

lemma validate_resources_None:
  "validate_resources n rs = None \<longleftrightarrow> (\<forall>r \<in> set rs. complete_resource r)"
  by (induction n rs rule: validate_resources.induct) (auto simp: complete_resource_def)

lemma set_Target_same: "Target (Spec i) = t \<Longrightarrow> set_Target t i = i"
  by auto

text \<open>What a validated input satisfies, and which target it runs with.\<close>

definition acceptable :: "KCLInput \<Rightarrow> bool" where
  "acceptable i \<longleftrightarrow>
     Source (Spec i) \<noteq> [] \<and>
     (Target (Spec i) = PatchResources \<longrightarrow>
        spec_Resources (Spec i) \<noteq> [] \<and> (\<forall>r \<in> set (spec_Resources (Spec i)). complete_resource r))"

definition effective_target :: "target \<Rightarrow> target" where
  "effective_target t = (if t \<in> targets then t else Default)"

lemma effective_target_in [simp]: "effective_target t \<in> targets"
  by (simp add: effective_target_def targets_def)

lemma Validate_acceptable:
  assumes "acceptable i"
  shows "Validate i = Inr (set_Target (effective_target (Target (Spec i))) i)"
proof (cases "Target (Spec i) = PatchResources")
  case True
  moreover from this assms have "validate_resources 0 (spec_Resources (Spec i)) = None"
    by (simp add: validate_resources_None acceptable_def)
  ultimately show ?thesis
    using assms
    by (simp add: Validate_def acceptable_def effective_target_def targets_def set_Target_same)
next
  case False
  then show ?thesis
    using assms
    by (auto simp: Validate_def acceptable_def effective_target_def targets_def set_Target_same)
qed

lemma Validate_unacceptable:
  assumes "\<not> acceptable i"
  shows "\<exists>p m. Validate i = Inl (FieldRequired p m)"
proof -
  have "\<exists>p m. e = FieldRequired p m" if "validate_resources n rs = Some e" for n rs e
    using that by (induction n rs rule: validate_resources.induct) (auto split: if_splits)
  then show ?thesis
    using assms validate_resources_None
    by (fastforce simp: Validate_def acceptable_def split: option.splits)
qed

lemma acceptable_set_Target:
  "acceptable (set_Target (effective_target (Target (Spec i))) i) \<longleftrightarrow> acceptable i"
  by (auto simp: acceptable_def effective_target_def targets_def)

lemma Validate_InrD:
  assumes "Validate i = Inr j"
  shows "j = set_Target (effective_target (Target (Spec i))) i" and "acceptable j"
    and "Target (Spec j) \<in> targets"
proof -
  have "acceptable i" using assms Validate_unacceptable [of i] by auto
  then show "j = set_Target (effective_target (Target (Spec i))) i" and "acceptable j"
    using assms Validate_acceptable [of i] acceptable_set_Target [of i] by auto
  then show "Target (Spec j) \<in> targets" by simp
qed

lemma validate_resources_first:
  "\<forall>r \<in> set good. complete_resource r \<Longrightarrow>
   validate_resources n (good @ rs) = validate_resources (n + length good) rs"
  by (induction good arbitrary: n) (auto simp: complete_resource_def)

section \<open>Properties\<close>

text \<open>C21: \<open>Validate\<close> accepts an input exactly when the source is not empty and, for the target
  \<open>PatchResources\<close>, there is at least one resource and every resource has a name and a base; an
  accepted input is returned unchanged but for an unknown target, which becomes \<open>Default\<close>, and
  validating it again changes nothing. Every other input gets a missing-field error.\<close>

theorem Validate_correct:
  "if acceptable i
   then Validate i = Inr (set_Target (effective_target (Target (Spec i))) i) \<and>
        Validate (set_Target (effective_target (Target (Spec i))) i) =
          Inr (set_Target (effective_target (Target (Spec i))) i)
   else \<exists>p m. Validate i = Inl (FieldRequired p m)"
proof (cases "acceptable i")
  case True
  moreover have "Validate (set_Target (effective_target (Target (Spec i))) i) =
      Inr (set_Target (effective_target (Target (Spec i))) i)"
    using True acceptable_set_Target [of i]
    by (simp add: Validate_acceptable) (simp add: effective_target_def targets_def set_Target_same)
  ultimately show ?thesis by (simp add: Validate_acceptable)
qed (simp add: Validate_unacceptable)

text \<open>For the target \<open>PatchResources\<close> the error names the index of the first resource without
  a name or a base, and the missing field, the name first.\<close>

theorem Validate_first_error:
  assumes "Source (Spec i) \<noteq> []" and "Target (Spec i) = PatchResources"
    and "spec_Resources (Spec i) = good @ r # rest"
    and "\<forall>x \<in> set good. complete_resource x" and "\<not> complete_resource r"
  shows "Validate i = Inl
    (if Name r = []
     then FieldRequired (''spec.Resources['' @ itoa (length good) @ ''].name'') ''name cannot be empty''
     else FieldRequired (''spec.Resources['' @ itoa (length good) @ ''].base'') ''base cannot be empty'')"
  using assms by (auto simp: Validate_def validate_resources_first complete_resource_def)

definition example_resource :: "string \<Rightarrow> RawExtension option \<Rightarrow> InputResource" where
  "example_resource n b = \<lparr>Name = n, Base = b\<rparr>"

definition example_spec :: "target \<Rightarrow> InputResource list \<Rightarrow> RunSpec" where
  "example_spec t rs =
     \<lparr>Source = ''items = []'',
      Config = \<lparr>Arguments = [], Settings = [], Overrides = [], PathSelectors = [], Vendor = False,
        SortKeys = False, ShowHidden = False, DisableNone = False, Debug = False,
        StrictRangeCheck = False\<rparr>,
      Credentials = \<lparr>Url = [], Username = [], Password = []\<rparr>, Dependencies = [],
      Params = None, spec_Resources = rs, Target = t\<rparr>"

definition example_input :: "target \<Rightarrow> InputResource list \<Rightarrow> KCLInput" where
  "example_input t rs =
     \<lparr>APIVersion = ''krm.kcl.dev/v1alpha1'', Kind = ''KCLInput'', input_Name = ''basic'',
      Spec = example_spec t rs\<rparr>"

lemmas example_input_defs = example_input_def example_spec_def example_resource_def

theorem Validate_first_error_witness:
  "Validate (example_input PatchResources
     [example_resource ''a'' (Some \<lparr>Raw = ''{}''\<rparr>), example_resource ''b'' None]) =
   Inl (FieldRequired (''spec.Resources['' @ itoa 1 @ ''].base'') ''base cannot be empty'')"
  by (subst Validate_first_error [where good = "[example_resource ''a'' (Some \<lparr>Raw = ''{}''\<rparr>)]"
        and r = "example_resource ''b'' None" and rest = "[]"])
     (simp_all add: example_input_defs complete_resource_def)

end
