(* ===== verification/Add_Resources.thy ===== *)
theory Add_Resources
  imports Set_Data KCL_Input "HOL-Library.List_Lexorder" "HOL-Library.Char_ord"
begin

text \<open>
  The operations of \<open>pkg/resource/res.go\<close> that put the program's output into the desired state:
  \<open>MatchResources\<close>, the three cases of \<open>AddResourcesTo\<close>, the handling of the ready annotation,
  and the success messages. A composed resource is shared by pointer in the code; as different
  names never share one, the model addresses it by its name in the desired map.
\<close>

section \<open>MatchResources\<close>

text \<open>\<open>DesiredMatch\<close>: the patches of every matched resource, in the order of the data.\<close>

type_synonym DesiredMatch = "obj list gomap"

definition add_match :: "string \<Rightarrow> obj \<Rightarrow> DesiredMatch \<Rightarrow> DesiredMatch" where
  "add_match name d matches =
     (case map_of matches name of
        None \<Rightarrow> AList.update name [d] matches
      | Some ds \<Rightarrow> AList.update name (ds @ [d]) matches)"

definition match_step ::
  "kube \<Rightarrow> desired_map \<Rightarrow> DesiredMatch \<times> nat \<Rightarrow> obj \<Rightarrow> DesiredMatch \<times> nat"
where
  "match_step K desired s d =
     (let (matches, count) = s; (name, d') = GetResourceName K d
      in case map_of desired name of
           Some found \<Rightarrow> (add_match name d' matches, count + 1)
         | None \<Rightarrow> (matches, count))"

definition MatchResources :: "kube \<Rightarrow> desired_map \<Rightarrow> obj list \<Rightarrow> go_error + DesiredMatch" where
  "MatchResources K desired data =
     (let (matches, count) = foldl (match_step K desired) ([], 0) data
      in if count \<noteq> length data then Inl (MatchFailed count (length data)) else Inr matches)"

section \<open>AddResourcesTo\<close>

record AddResourcesOptions =
  Basename :: string
  Data :: "obj list"
  Overwrite :: bool

definition merged :: "obj \<Rightarrow> obj \<Rightarrow> obj" where
  "merged data from = overlay (overlay [] from) data"

definition add_desired_step ::
  "kube \<Rightarrow> desired_map \<times> duplicateChecker \<Rightarrow> obj \<Rightarrow> failure + (desired_map \<times> duplicateChecker)"
where
  "add_desired_step K s d =
     (let (desired, checker) = s; (name, d') = GetResourceName K d
      in bind_result (lift_error (CheckDuplicateName K checker d' name)) (\<lambda>checker'.
           case map_of desired name of
             None \<Rightarrow>
               Inr (AList.update name \<lparr>dc_Resource = Some d', dc_Ready = []\<rparr> desired, checker')
           | Some v \<Rightarrow>
               (case dc_Resource v of
                  None \<Rightarrow> Inl (Panic NilDereference)
                | Some from \<Rightarrow>
                    Inr (AList.update name
                           \<lparr>dc_Resource = Some (merged d' from), dc_Ready = []\<rparr> desired,
                         checker'))))"

definition AddResourcesTo_desired ::
  "kube \<Rightarrow> desired_map \<Rightarrow> AddResourcesOptions \<Rightarrow> failure + desired_map"
where
  "AddResourcesTo_desired K desired opts =
     bind_result (loop (add_desired_step K) (desired, newDuplicateChecker) (Data opts))
       (\<lambda>s. Inr (fst s))"

text \<open>Apply the patches of one matched resource, then store it back under its name.\<close>

definition patch_step ::
  "kube \<Rightarrow> bool \<Rightarrow> settable \<Rightarrow> obj \<Rightarrow> go_error + settable"
where
  "patch_step K overwrite target d =
     wrap_error ''cannot set data existing desired composed object''
       (SetData K (GMap d) [] target overwrite)"

definition patch_match ::
  "kube \<Rightarrow> bool \<Rightarrow> desired_map \<Rightarrow> string \<times> obj list \<Rightarrow> go_error + desired_map"
where
  "patch_match K overwrite desired m =
     (case map_of desired (fst m) of
        None \<Rightarrow> Inr desired
      | Some v \<Rightarrow>
          bind_result (loop (patch_step K overwrite) (SetComposed (dc_Resource v)) (snd m))
            (\<lambda>target. case target of
               SetComposed r \<Rightarrow> Inr (AList.update (fst m) (v\<lparr>dc_Resource := r\<rparr>) desired)
             | _ \<Rightarrow> Inr desired))"

definition AddResourcesTo_matches ::
  "kube \<Rightarrow> desired_map \<Rightarrow> DesiredMatch \<Rightarrow> AddResourcesOptions \<Rightarrow> failure + desired_map"
where
  "AddResourcesTo_matches K desired matches opts =
     lift_error (loop (patch_match K (Overwrite opts)) desired matches)"

definition xr_step :: "kube \<Rightarrow> bool \<Rightarrow> Composite \<Rightarrow> obj \<Rightarrow> go_error + Composite" where
  "xr_step K overwrite xr d =
     wrap_error ''cannot set data on xr''
       (bind_result (SetData K (GMap d) [] (SetComposite (xr_Resource xr)) overwrite)
          (\<lambda>target. case target of
             SetComposite r \<Rightarrow> Inr (xr\<lparr>xr_Resource := r\<rparr>)
           | _ \<Rightarrow> Inr xr))"

definition AddResourcesTo_composite ::
  "kube \<Rightarrow> Composite \<Rightarrow> AddResourcesOptions \<Rightarrow> failure + Composite"
where
  "AddResourcesTo_composite K xr opts =
     lift_error (loop (xr_step K (Overwrite opts)) xr (Data opts))"

text \<open>The type switch itself; a desired match carries the desired resources it points into.\<close>

datatype add_object =
    AddDesired desired_map
  | AddMatch desired_map DesiredMatch
  | AddComposite Composite
  | AddUnknown

definition AddResourcesTo ::
  "kube \<Rightarrow> add_object \<Rightarrow> AddResourcesOptions \<Rightarrow> failure + add_object"
where
  "AddResourcesTo K target opts =
     (case target of
        AddDesired desired \<Rightarrow>
          bind_result (AddResourcesTo_desired K desired opts) (\<lambda>d. Inr (AddDesired d))
      | AddMatch desired matches \<Rightarrow>
          bind_result (AddResourcesTo_matches K desired matches opts) (\<lambda>d. Inr (AddMatch d matches))
      | AddComposite xr \<Rightarrow>
          bind_result (AddResourcesTo_composite K xr opts) (\<lambda>x. Inr (AddComposite x))
      | AddUnknown \<Rightarrow> Inl (Error InvalidObjectType))"

section \<open>The ready annotation\<close>

definition ready_values :: "string set" where
  "ready_values = {''True'', ''Unspecified'', ''False''}"

text \<open>One resource: an annotation with a valid value is moved into \<open>Ready\<close>.\<close>

definition process_ready :: "kube \<Rightarrow> DesiredComposed \<Rightarrow> failure + DesiredComposed" where
  "process_ready K cd =
     (case dc_Resource cd of
        None \<Rightarrow> Inl (Panic NilDereference)
      | Some u \<Rightarrow>
          (case getAnnotations K u AnnotationKeyReady of
             None \<Rightarrow> Inr cd
           | Some v \<Rightarrow>
               if v \<notin> ready_values then Inl (Error (InvalidReady v))
               else Inr (cd\<lparr>dc_Resource := Some (removeAnnotations K u AnnotationKeyReady),
                            dc_Ready := v\<rparr>)))"

primrec process_ready_all :: "kube \<Rightarrow> desired_map \<Rightarrow> failure + desired_map" where
  "process_ready_all K [] = Inr []"
| "process_ready_all K (e # desired) =
     bind_result (process_ready K (snd e)) (\<lambda>cd.
     bind_result (process_ready_all K desired) (\<lambda>rest. Inr ((fst e, cd) # rest)))"

section \<open>Success messages\<close>

datatype result_object = NoObject | DataObject "obj list" | XRObject Composite

record AddResourcesResult =
  res_Target :: target
  res_Object :: result_object
  MsgCount :: nat
  Msgs :: "string list"

definition message :: "kube \<Rightarrow> string \<Rightarrow> obj \<Rightarrow> string" where
  "message K verb d = verb @ '' \"'' @ getName K d @ '':'' @ getKind K d @ ''\"''"

text \<open>Fill the first entries of \<open>Msgs\<close>; writing past its end panics.\<close>

definition fill_msgs :: "nat \<Rightarrow> string list \<Rightarrow> failure + string list" where
  "fill_msgs n ms =
     (if n < length ms then Inl (Panic IndexOutOfRange)
      else Inr (ms @ replicate (n - length ms) []))"

definition setSuccessMsgs :: "kube \<Rightarrow> AddResourcesResult \<Rightarrow> failure + AddResourcesResult" where
  "setSuccessMsgs K r =
     bind_result
       (if res_Target r \<in> {Resources, PatchDesired, PatchResources} then
          (case res_Object r of
             DataObject desired \<Rightarrow>
               fill_msgs (MsgCount r)
                 (map (message K (if res_Target r = PatchDesired then ''updated resource''
                                  else ''created resource'')) desired)
           | _ \<Rightarrow> Inl (Panic BadTypeAssertion))
        else if res_Target r = XR then
          (case res_Object r of
             XRObject xr \<Rightarrow>
               (case xr_Resource xr of
                  None \<Rightarrow> Inl (Panic NilDereference)
                | Some u \<Rightarrow> fill_msgs (MsgCount r) [message K ''updated xr'' u])
           | _ \<Rightarrow> Inl (Panic BadTypeAssertion))
        else Inr (replicate (MsgCount r) []))
       (\<lambda>ms. Inr (r\<lparr>Msgs := sort ms\<rparr>))"

section \<open>What matching computes\<close>

abbreviation matched :: "kube \<Rightarrow> desired_map \<Rightarrow> obj \<Rightarrow> bool" where
  "matched K desired d \<equiv> resource_name K d \<in> dom (map_of desired)"

text \<open>The patches for a name, in the order of the data, as the objects without name annotation.\<close>

definition patches_for :: "kube \<Rightarrow> string \<Rightarrow> obj list \<Rightarrow> obj list" where
  "patches_for K n data = map (stripped K) (filter (\<lambda>d. resource_name K d = n) data)"

definition match_result :: "kube \<Rightarrow> desired_map \<Rightarrow> obj list \<Rightarrow> (string \<rightharpoonup> obj list)" where
  "match_result K desired data n =
     (if n \<in> dom (map_of desired) \<and> patches_for K n data \<noteq> [] then Some (patches_for K n data)
      else None)"

lemma patches_for_snoc:
  "patches_for K n (data @ [d]) =
     patches_for K n data @ (if resource_name K d = n then [stripped K d] else [])"
  by (simp add: patches_for_def)

lemma map_of_add_match:
  "map_of (add_match n d m) =
     (map_of m)(n \<mapsto> (case map_of m n of None \<Rightarrow> [] | Some ds \<Rightarrow> ds) @ [d])"
  by (auto simp: add_match_def gomap_simps split: option.split)

lemma wf_add_match: "wf_gomap m \<Longrightarrow> wf_gomap (add_match n d m)"
  by (auto simp: add_match_def gomap_simps split: option.split)

lemma match_loop:
  "map_of (fst (foldl (match_step K desired) ([], 0) data)) = match_result K desired data \<and>
   snd (foldl (match_step K desired) ([], 0) data) = length (filter (matched K desired) data) \<and>
   wf_gomap (fst (foldl (match_step K desired) ([], 0) data))"
proof (induction data rule: rev_induct)
  case Nil
  show ?case by (simp add: match_result_def patches_for_def fun_eq_iff)
next
  case (snoc d data)
  obtain m c where mc: "foldl (match_step K desired) ([], 0) data = (m, c)" by fastforce
  show ?case
  proof (cases "map_of desired (resource_name K d)")
    case None
    with snoc mc show ?thesis
      by (auto simp: match_step_def split_beta fun_eq_iff match_result_def patches_for_snoc)
  next
    case (Some v)
    with snoc mc show ?thesis
      by (auto simp: match_step_def split_beta fun_eq_iff match_result_def patches_for_snoc
          map_of_add_match wf_add_match)
  qed
qed

lemma MatchResources_eq:
  "MatchResources K desired data =
     (if \<forall>d \<in> set data. matched K desired d
      then Inr (fst (foldl (match_step K desired) ([], 0) data))
      else Inl (MatchFailed (length (filter (matched K desired) data)) (length data)))"
  using match_loop [of K desired data] length_filter_all [of "matched K desired" data]
  by (simp add: MatchResources_def split_beta)

section \<open>What patching computes\<close>

lemma set_leaf_composed: "set_leaf K ow (SetComposed r) l = Inr t \<Longrightarrow> \<exists>r'. t = SetComposed r'"
  by (auto simp: set_leaf_def Let_def result_simps split: if_splits option.splits)

lemma set_leaf_composite: "set_leaf K ow (SetComposite r) l = Inr t \<Longrightarrow> \<exists>r'. t = SetComposite r'"
  by (auto simp: set_leaf_def Let_def result_simps split: option.splits)

lemma SetData_keeps_kind:
  "SetData K data p (SetComposed r) ow = Inr t \<Longrightarrow> \<exists>r'. t = SetComposed r'"
  "SetData K data p (SetComposite r) ow = Inr t \<Longrightarrow> \<exists>r'. t = SetComposite r'"
proof -
  have "loop (set_leaf K ow) (SetComposed r) ls = Inr t \<Longrightarrow> \<exists>r'. t = SetComposed r'" for ls r
    by (induction ls arbitrary: r) (auto simp: result_simps dest: set_leaf_composed)
  then show "SetData K data p (SetComposed r) ow = Inr t \<Longrightarrow> \<exists>r'. t = SetComposed r'"
    unfolding SetData_leaves(1) .
  have "loop (set_leaf K ow) (SetComposite r) ls = Inr t \<Longrightarrow> \<exists>r'. t = SetComposite r'" for ls r
    by (induction ls arbitrary: r) (auto simp: result_simps dest: set_leaf_composite)
  then show "SetData K data p (SetComposite r) ow = Inr t \<Longrightarrow> \<exists>r'. t = SetComposite r'"
    unfolding SetData_leaves(1) .
qed

lemma patch_loop_composed:
  "loop (patch_step K ow) (SetComposed r) ds = Inr t \<Longrightarrow> \<exists>r'. t = SetComposed r'"
  by (induction ds arbitrary: r)
     (auto simp: patch_step_def result_simps simp del: SetData.simps dest!: SetData_keeps_kind(1))

text \<open>One matched resource after its patches.\<close>

definition patched :: "kube \<Rightarrow> bool \<Rightarrow> DesiredComposed \<Rightarrow> obj list \<Rightarrow> DesiredComposed \<Rightarrow> bool" where
  "patched K ow v ds v' \<longleftrightarrow>
     (\<exists>r. loop (patch_step K ow) (SetComposed (dc_Resource v)) ds = Inr (SetComposed r) \<and>
          v' = v\<lparr>dc_Resource := r\<rparr>)"

lemma patch_match_Inr:
  assumes "patch_match K ow desired (n, ds) = Inr desired'"
  shows "(map_of desired n = None \<and> desired' = desired) \<or>
    (\<exists>v v'. map_of desired n = Some v \<and> patched K ow v ds v' \<and>
            map_of desired' = (map_of desired)(n \<mapsto> v') \<and> wf_gomap desired' = wf_gomap desired)"
proof (cases "map_of desired n")
  case (Some v)
  with assms obtain t where t: "loop (patch_step K ow) (SetComposed (dc_Resource v)) ds = Inr t"
    "(case t of SetComposed r \<Rightarrow> Inr (AList.update n (v\<lparr>dc_Resource := r\<rparr>) desired)
       | _ \<Rightarrow> Inr desired) = (Inr desired' :: go_error + desired_map)"
    by (auto simp: patch_match_def result_simps)
  then obtain r where "t = SetComposed r" by (blast dest: patch_loop_composed)
  moreover have "wf_gomap (AList.update n (v\<lparr>dc_Resource := r\<rparr>) desired) = wf_gomap desired" for r
    using Some by (simp add: wf_gomap_update_existing)
  ultimately show ?thesis
    using t Some by (auto simp: patched_def gomap_simps)
qed (use assms in \<open>simp add: patch_match_def\<close>)

lemma patch_loop_result:
  assumes "wf_gomap matches" and "loop (patch_match K ow) desired matches = Inr desired'"
  shows "dom (map_of desired') = dom (map_of desired) \<and> wf_gomap desired' = wf_gomap desired \<and>
    (\<forall>n v. map_of desired n = Some v \<longrightarrow>
       (case map_of matches n of
          None \<Rightarrow> map_of desired' n = Some v
        | Some ds \<Rightarrow> \<exists>v'. map_of desired' n = Some v' \<and> patched K ow v ds v'))"
  using assms
proof (induction matches arbitrary: desired)
  case (Cons m matches)
  obtain n ds where m: "m = (n, ds)" by (cases m)
  with Cons.prems obtain d1 where d1: "patch_match K ow desired (n, ds) = Inr d1"
    "loop (patch_match K ow) d1 matches = Inr desired'"
    by (auto simp: result_simps)
  have fresh: "map_of matches n = None" and wf: "wf_gomap matches"
    using Cons.prems(1) m by auto
  note IH = Cons.IH [OF wf d1(2)]
  from patch_match_Inr [OF d1(1)] show ?case
  proof (elim disjE exE conjE)
    assume "map_of desired n = None" and "d1 = desired"
    with IH m show ?thesis by (auto split: option.splits if_splits)
  next
    fix v v'
    assume v: "map_of desired n = Some v" "patched K ow v ds v'"
      "map_of d1 = (map_of desired)(n \<mapsto> v')" "wf_gomap d1 = wf_gomap desired"
    then have "map_of d1 n = Some v'" by simp
    with IH fresh have "map_of desired' n = Some v'" by fastforce
    moreover have "dom (map_of d1) = dom (map_of desired)" using v by (auto simp: domI)
    ultimately show ?thesis
      using IH v m fresh by (auto split: option.split)
  qed
qed (simp split: option.split)

section \<open>The ready annotation over all resources\<close>

lemma process_ready_all_iff:
  "process_ready_all K desired = Inr desired' \<longleftrightarrow>
     list_all2 (\<lambda>e e'. fst e' = fst e \<and> process_ready K (snd e) = Inr (snd e')) desired desired'"
proof (induction desired arbitrary: desired')
  case (Cons e desired)
  then show ?case
    by (cases e; cases desired') (auto simp: result_simps list_all2_Cons1)
qed auto

lemma process_ready_all_map:
  assumes "process_ready_all K desired = Inr desired'"
  shows "map fst desired' = map fst desired"
    and "map_of desired n = Some v \<Longrightarrow> \<exists>v'. map_of desired' n = Some v' \<and> process_ready K v = Inr v'"
    and "map_of desired n = None \<Longrightarrow> map_of desired' n = None"
  using assms unfolding process_ready_all_iff
  by (induction rule: list_all2_induct) (auto split: if_splits)

lemma process_ready_all_ok:
  "is_ok (process_ready_all K desired) \<longleftrightarrow> (\<forall>e \<in> set desired. is_ok (process_ready K (snd e)))"
  by (induction desired) (auto simp: is_ok_bind split: sum.split)

lemma process_ready_ok:
  "is_ok (process_ready K v) \<longleftrightarrow> (\<exists>u. dc_Resource v = Some u \<and>
     (case getAnnotations K u AnnotationKeyReady of None \<Rightarrow> True | Some r \<Rightarrow> r \<in> ready_values))"
  by (auto simp: process_ready_def split: option.split)

lemma process_ready_done:
  assumes "annotation_laws K" and "process_ready K cd = Inr cd'"
  shows "\<exists>u u'. dc_Resource cd = Some u \<and> dc_Resource cd' = Some u' \<and>
     getAnnotations K u' = (getAnnotations K u)(AnnotationKeyReady := None) \<and>
     (case getAnnotations K u AnnotationKeyReady of
        None \<Rightarrow> cd' = cd
      | Some r \<Rightarrow> dc_Ready cd' = r \<and> r \<in> ready_values)"
  using assms by (auto simp: process_ready_def annotation_lawsD fun_eq_iff split: option.splits if_splits)

section \<open>What adding resources computes\<close>

definition non_nil :: "desired_map \<Rightarrow> bool" where
  "non_nil desired \<longleftrightarrow> (\<forall>n v. map_of desired n = Some v \<longrightarrow> dc_Resource v \<noteq> None)"

text \<open>The object an output object becomes: itself, or itself over the one already desired.\<close>

definition combined :: "kube \<Rightarrow> desired_map \<Rightarrow> obj \<Rightarrow> obj" where
  "combined K desired d =
     (case map_of desired (resource_name K d) of
        None \<Rightarrow> stripped K d
      | Some v \<Rightarrow>
          (case dc_Resource v of
             None \<Rightarrow> stripped K d
           | Some from \<Rightarrow> merged (stripped K d) from))"

definition put_resource :: "kube \<Rightarrow> desired_map \<Rightarrow> obj \<Rightarrow> desired_map" where
  "put_resource K desired d =
     AList.update (resource_name K d)
       \<lparr>dc_Resource = Some (combined K desired d), dc_Ready = []\<rparr> desired"

lemma map_of_put_resource:
  "map_of (put_resource K desired d) =
     (map_of desired)(resource_name K d \<mapsto>
        \<lparr>dc_Resource = Some (combined K desired d), dc_Ready = []\<rparr>)"
  by (simp add: put_resource_def gomap_simps)

lemma non_nil_put [simp]: "non_nil desired \<Longrightarrow> non_nil (put_resource K desired d)"
  by (auto simp: non_nil_def map_of_put_resource)

lemma add_desired_step_eq:
  assumes "non_nil desired"
  shows "add_desired_step K (desired, c) d =
     checker.register_step K (stripped K) (resource_name K) (put_resource K) (desired, c) d"
proof (cases "map_of desired (resource_name K d)")
  case (Some v)
  then obtain u where "dc_Resource v = Some u"
    using assms by (auto simp: non_nil_def)
  with Some show ?thesis
    by (cases v) (simp add: add_desired_step_def checker.register_step_def split_beta
        put_resource_def combined_def)
qed (simp add: add_desired_step_def checker.register_step_def split_beta put_resource_def combined_def)

lemma add_desired_loop_eq:
  "non_nil desired \<Longrightarrow>
   loop (add_desired_step K) (desired, c) data =
   loop (checker.register_step K (stripped K) (resource_name K) (put_resource K)) (desired, c) data"
proof (induction data arbitrary: desired c)
  case (Cons d data)
  have "non_nil (fst s)"
    if "checker.register_step K (stripped K) (resource_name K) (put_resource K) (desired, c) d = Inr s"
    for s
    using that Cons.prems by (auto simp: checker.register_step_def result_simps)
  with Cons show ?case
    by (auto simp: add_desired_step_eq intro!: bind_result_cong)
qed simp

lemma foldl_put_resource:
  "distinct (map (resource_name K) data) \<Longrightarrow>
   map_of (foldl (put_resource K) desired data) n =
     (case find (\<lambda>d. resource_name K d = n) data of
        None \<Rightarrow> map_of desired n
      | Some d \<Rightarrow> Some \<lparr>dc_Resource = Some (combined K desired d), dc_Ready = []\<rparr>)"
proof (induction data arbitrary: desired)
  case (Cons d data)
  have same: "combined K (put_resource K desired d) e = combined K desired e"
    if "resource_name K e \<noteq> resource_name K d" for e
    using that by (simp add: combined_def map_of_put_resource)
  show ?case
  proof (cases "resource_name K d = n")
    case True
    then have "find (\<lambda>d. resource_name K d = n) data = None"
      using Cons.prems by (auto simp: find_None_iff image_iff)
    with True Cons show ?thesis by (simp add: map_of_put_resource)
  next
    case False
    have "combined K (put_resource K desired d) e = combined K desired e"
      if "find (\<lambda>d. resource_name K d = n) data = Some e" for e
      using that False by (intro same) (auto simp: find_Some_iff)
    with False Cons show ?thesis by (auto simp: map_of_put_resource split: option.split)
  qed
qed simp

lemma register_loop_error:
  "loop (checker.register_step K ob nm upd) s xs = Inl e \<Longrightarrow> \<exists>n a b. e = Error (DuplicateName n a b)"
proof (induction xs arbitrary: s)
  case (Cons x xs)
  have "\<exists>n a b. e = Error (DuplicateName n a b)"
    if "checker.register_step K ob nm upd s x = Inl e"
    using that by (auto simp: checker.register_step_def result_simps dest: CheckDuplicateName_error)
  with Cons show ?case by (auto simp: result_simps)
qed simp

lemma MatchResources_patches:
  assumes "\<forall>d \<in> set data. matched K desired d"
  shows "\<exists>m. MatchResources K desired data = Inr m \<and> wf_gomap m \<and>
    (\<forall>n. map_of m n = (if patches_for K n data = [] then None else Some (patches_for K n data)))"
proof -
  have "n \<in> dom (map_of desired)" if "patches_for K n data \<noteq> []" for n
    using that assms by (auto simp: patches_for_def filter_empty_conv)
  with assms match_loop [of K desired data] show ?thesis
    by (auto simp: MatchResources_eq match_result_def)
qed

lemma matches_result:
  assumes "MatchResources K desired (Data opts) = Inr matches"
    and "AddResourcesTo_matches K desired matches opts = Inr desired'"
  shows "dom (map_of desired') = dom (map_of desired) \<and>
    (\<forall>n v. map_of desired n = Some v \<longrightarrow>
       (\<exists>v'. map_of desired' n = Some v' \<and>
             (if patches_for K n (Data opts) = [] then v' = v
              else patched K (Overwrite opts) v (patches_for K n (Data opts)) v')))"
proof -
  have m: "wf_gomap matches \<and>
      (\<forall>n. map_of matches n =
         (if patches_for K n (Data opts) = [] then None else Some (patches_for K n (Data opts))))"
    using MatchResources_patches [of "Data opts" K desired] assms(1) by (auto simp: MatchResources_eq split: if_splits)
  have l: "loop (patch_match K (Overwrite opts)) desired matches = Inr desired'"
    using assms(2) by (simp add: AddResourcesTo_matches_def result_simps)
  show ?thesis
  proof (intro conjI allI impI)
    show "dom (map_of desired') = dom (map_of desired)"
      using patch_loop_result [OF _ l] m by blast
    fix n v assume v: "map_of desired n = Some v"
    show "\<exists>v'. map_of desired' n = Some v' \<and>
        (if patches_for K n (Data opts) = [] then v' = v
         else patched K (Overwrite opts) v (patches_for K n (Data opts)) v')"
      using patch_loop_result [OF _ l] m v by (cases "patches_for K n (Data opts) = []") fastforce+
  qed
qed

lemma AddResourcesTo_desired_result:
  assumes "non_nil desired"
  shows "if distinct (map (resource_name K) (Data opts))
    then \<exists>desired'. AddResourcesTo_desired K desired opts = Inr desired' \<and>
      (\<forall>n. map_of desired' n =
         (case find (\<lambda>d. resource_name K d = n) (Data opts) of
            None \<Rightarrow> map_of desired n
          | Some d \<Rightarrow> Some \<lparr>dc_Resource = Some (combined K desired d), dc_Ready = []\<rparr>))
    else \<exists>n a b. AddResourcesTo_desired K desired opts = Inl (Error (DuplicateName n a b))"
proof (cases "loop (add_desired_step K) (desired, newDuplicateChecker) (Data opts)")
  case (Inr s)
  obtain d' c' where s: "s = (d', c')" by (cases s)
  note eq = add_desired_loop_eq [OF assms, of K newDuplicateChecker "Data opts"]
  have dist: "distinct (map (resource_name K) (Data opts))"
    using Inr eq checker.register_loop_ok [of K "stripped K" "resource_name K" "put_resource K"
        desired newDuplicateChecker "Data opts"] by simp
  have "d' = foldl (put_resource K) desired (Data opts)"
    using Inr eq s by (simp add: checker.register_loop_result)
  with dist Inr s show ?thesis
    by (simp add: AddResourcesTo_desired_def foldl_put_resource)
next
  case (Inl e)
  then have dup: "loop (checker.register_step K (stripped K) (resource_name K) (put_resource K))
      (desired, newDuplicateChecker) (Data opts) = Inl e"
    unfolding add_desired_loop_eq [OF assms] .
  then have "\<not> distinct (map (resource_name K) (Data opts))"
    using checker.register_loop_ok [of K "stripped K" "resource_name K" "put_resource K"
        desired newDuplicateChecker "Data opts"]
    unfolding dup by (simp add: newDuplicateChecker_def)
  moreover have "\<exists>n a b. e = Error (DuplicateName n a b)"
    using dup by (rule register_loop_error)
  ultimately show ?thesis using Inl by (auto simp: AddResourcesTo_desired_def)
qed

lemma process_ready_all_map_ok:
  assumes "wf_gomap desired"
  shows "is_ok (process_ready_all K desired) \<longleftrightarrow>
    (\<forall>n v. map_of desired n = Some v \<longrightarrow> is_ok (process_ready K v))"
  using assms unfolding process_ready_all_ok by (force simp: wf_gomap_def)

section \<open>Properties\<close>

text \<open>\<open>MatchResources\<close> succeeds exactly when every patch names a desired resource; then it
  assigns to each named resource all its patches, in the order of the data and without the name
  annotation, and nothing to the others. Otherwise the error counts the patches that were found.\<close>

theorem MatchResources_correct:
  "if \<forall>d \<in> set data. matched K desired d
   then \<exists>m. MatchResources K desired data = Inr m \<and> wf_gomap m \<and>
          (\<forall>n. map_of m n = (if patches_for K n data = [] then None else Some (patches_for K n data)))
   else MatchResources K desired data =
          Inl (MatchFailed (length (filter (matched K desired) data)) (length data))"
  using MatchResources_patches [of data K desired] by (auto simp: MatchResources_eq)

theorem MatchResources_correct_witness:
  "MatchResources example_kube [] [[(''kind'', GString ''CD'')]] = Inl (MatchFailed 0 1)"
  using MatchResources_correct [of "[[(''kind'', GString ''CD'')]]" example_kube "[]"] by simp

definition example_object :: "string \<Rightarrow> string \<Rightarrow> obj" where
  "example_object kind name =
     [(''kind'', GString kind), (''metadata'', GMap [(''name'', GString name)])]"

lemma example_object_name [simp]:
  "resource_name example_kube (example_object k n) = n"
  "stripped example_kube (example_object k n) = example_object k n"
  "getName example_kube (example_object k n) = n"
  "getKind example_kube (example_object k n) = k"
  "getAPIVersion example_kube (example_object k n) = []"
  "getAnnotations example_kube (example_object k n) = Map.empty"
  by (simp_all add: GetResourceName_def example_kube_accessors example_object_def map_field_def
      string_field_def fun_eq_iff)

text \<open>The fields of the output win over the fields of the resource already desired: a merged
  object has every top-level field of the output object, and the other fields as they were.\<close>

lemma merged_lookup:
  assumes "wf_gomap data" and "wf_gomap from"
  shows "map_of (merged data from) k =
     (case map_of data k of Some v \<Rightarrow> Some v | None \<Rightarrow> map_of from k) \<and> wf_gomap (merged data from)"
  using assms by (simp add: merged_def gomap_simps wf_gomap_overlay map_add_def split: option.split)

text \<open>C24: processing the ready annotations succeeds exactly when every resource is there and
  every ready annotation is True, False or Unspecified. It keeps the names; each resource loses its
  ready annotation and has the annotation's value as readiness, and one without the annotation is
  unchanged. The outcome does not depend on the order in which the map is visited.\<close>

theorem process_ready_all_correct:
  assumes "annotation_laws K" and "set desired = set order" and "wf_gomap desired" and "wf_gomap order"
  shows "(is_ok (process_ready_all K desired) \<longleftrightarrow>
      (\<forall>n v. map_of desired n = Some v \<longrightarrow> (\<exists>u. dc_Resource v = Some u \<and>
         (case getAnnotations K u AnnotationKeyReady of None \<Rightarrow> True | Some r \<Rightarrow> r \<in> ready_values)))) \<and>
    is_ok (process_ready_all K desired) = is_ok (process_ready_all K order) \<and>
    (process_ready_all K desired = Inr d1 \<and> process_ready_all K order = Inr d2 \<longrightarrow>
       map_of d1 = map_of d2 \<and> dom (map_of d1) = dom (map_of desired) \<and>
       (\<forall>n v u. map_of desired n = Some v \<and> dc_Resource v = Some u \<longrightarrow>
          (\<exists>v' u'. map_of d1 n = Some v' \<and> dc_Resource v' = Some u' \<and>
             getAnnotations K u' AnnotationKeyReady = None \<and>
             (case getAnnotations K u AnnotationKeyReady of
                None \<Rightarrow> v' = v
              | Some r \<Rightarrow> dc_Ready v' = r \<and> r \<in> ready_values))))"
proof (intro conjI impI)
  have "(\<forall>e \<in> set desired. P (snd e)) \<longleftrightarrow> (\<forall>n v. map_of desired n = Some v \<longrightarrow> P v)" for P
    using assms(3) by (force simp: wf_gomap_def)
  then show "is_ok (process_ready_all K desired) \<longleftrightarrow>
      (\<forall>n v. map_of desired n = Some v \<longrightarrow> (\<exists>u. dc_Resource v = Some u \<and>
         (case getAnnotations K u AnnotationKeyReady of None \<Rightarrow> True | Some r \<Rightarrow> r \<in> ready_values)))"
    by (simp only: process_ready_all_ok process_ready_ok)
  show "is_ok (process_ready_all K desired) = is_ok (process_ready_all K order)"
    using assms(2) by (simp add: process_ready_all_ok)
  assume ok: "process_ready_all K desired = Inr d1 \<and> process_ready_all K order = Inr d2"
  note m1 = process_ready_all_map [OF ok [THEN conjunct1]]
  note m2 = process_ready_all_map [OF ok [THEN conjunct2]]
  have same: "map_of desired = map_of order"
    using assms(2-4) by (simp add: wf_gomap_def map_of_inject_set)
  show "map_of d1 = map_of d2"
  proof
    fix n show "map_of d1 n = map_of d2 n"
      using m1(2,3) [of n] m2(2,3) [of n] same by (cases "map_of desired n") auto
  qed
  show "dom (map_of d1) = dom (map_of desired)"
    using m1(1) by (simp add: dom_map_of_conv_image_fst flip: set_map)
  show "\<forall>n v u. map_of desired n = Some v \<and> dc_Resource v = Some u \<longrightarrow>
      (\<exists>v' u'. map_of d1 n = Some v' \<and> dc_Resource v' = Some u' \<and>
         getAnnotations K u' AnnotationKeyReady = None \<and>
         (case getAnnotations K u AnnotationKeyReady of
            None \<Rightarrow> v' = v | Some r \<Rightarrow> dc_Ready v' = r \<and> r \<in> ready_values))"
  proof (intro allI impI, elim conjE)
    fix n v u assume v: "map_of desired n = Some v" "dc_Resource v = Some u"
    from m1(2) [OF v(1)] obtain v' where v': "map_of d1 n = Some v'" "process_ready K v = Inr v'"
      by blast
    from process_ready_done [OF assms(1) v'(2)] v v' show "\<exists>v' u'. map_of d1 n = Some v' \<and>
        dc_Resource v' = Some u' \<and> getAnnotations K u' AnnotationKeyReady = None \<and>
        (case getAnnotations K u AnnotationKeyReady of
           None \<Rightarrow> v' = v | Some r \<Rightarrow> dc_Ready v' = r \<and> r \<in> ready_values)"
      by auto
  qed
qed

definition example_ready :: "string \<Rightarrow> obj" where
  "example_ready v =
     [(''metadata'', GMap [(''annotations'', GMap [(''krm.kcl.dev/ready'', GString v)])])]"

lemma example_ready_annotation:
  "getAnnotations example_kube (example_ready v) AnnotationKeyReady = Some v"
  by (simp add: example_kube_accessors example_ready_def map_field_def map_string_def
      AnnotationKeyReady_def)

theorem process_ready_all_correct_witness:
  "\<exists>d v u. process_ready_all example_kube
       [(''x'', \<lparr>dc_Resource = Some (example_ready ''True''), dc_Ready = []\<rparr>)] = Inr d \<and>
     map_of d ''x'' = Some v \<and> dc_Ready v = ''True'' \<and> dc_Resource v = Some u \<and>
     getAnnotations example_kube u AnnotationKeyReady = None"
proof -
  let ?d = "[(''x'', \<lparr>dc_Resource = Some (example_ready ''True''), dc_Ready = []\<rparr>)]"
  obtain d where d: "process_ready_all example_kube ?d = Inr d"
    by (simp add: process_ready_def example_ready_annotation ready_values_def)
  have "\<exists>v' u'. map_of d ''x'' = Some v' \<and> dc_Resource v' = Some u' \<and>
      getAnnotations example_kube u' AnnotationKeyReady = None \<and>
      (case getAnnotations example_kube (example_ready ''True'') AnnotationKeyReady of
         None \<Rightarrow> v' = \<lparr>dc_Resource = Some (example_ready ''True''), dc_Ready = []\<rparr>
       | Some r \<Rightarrow> dc_Ready v' = r \<and> r \<in> ready_values)"
    by (rule process_ready_all_correct [OF example_annotation_laws refl, THEN conjunct2, THEN conjunct2,
          THEN mp, THEN conjunct2, THEN conjunct2, rule_format, of ?d d d]) (use d in simp_all)
  with d show ?thesis by (auto simp only: example_ready_annotation option.case)
qed

text \<open>\<open>AddResourcesTo\<close> never looks at the base name of its options.\<close>

lemma AddResourcesTo_ignores_Basename:
  "AddResourcesTo K target (opts\<lparr>Basename := b\<rparr>) = AddResourcesTo K target opts"
  by (simp add: AddResourcesTo_def AddResourcesTo_desired_def AddResourcesTo_matches_def
      AddResourcesTo_composite_def split: add_object.split)

end
