(* ===== verification/Base64.thy ===== *)
theory Base64
  imports Prelude
begin

text \<open>
  \<open>base64.StdEncoding.DecodeString\<close> as the connection details use it: the decoder reads quanta of
  four characters, skips line breaks, and stops at the first malformed quantum, returning the
  bytes decoded so far beside the error. The encoder is the reference for the round trip.
\<close>

section \<open>The alphabet\<close>

definition enc_char :: "nat \<Rightarrow> char" where
  "enc_char v =
     (if v < 26 then char_of (65 + v) else if v < 52 then char_of (71 + v)
      else if v < 62 then char_of (v - 4) else if v = 62 then CHR ''+'' else CHR ''/'')"

definition dec_char :: "char \<Rightarrow> nat option" where
  "dec_char c =
     (let n = (of_char c :: nat)
      in if 65 \<le> n \<and> n \<le> 90 then Some (n - 65) else if 97 \<le> n \<and> n \<le> 122 then Some (n - 71)
         else if 48 \<le> n \<and> n \<le> 57 then Some (n + 4) else if n = 43 then Some 62
         else if n = 47 then Some 63 else None)"

definition newline :: "char \<Rightarrow> bool" where
  "newline c \<longleftrightarrow> (of_char c :: nat) \<in> {10, 13}"

section \<open>Decoding\<close>

text \<open>One step of \<open>decodeQuantum\<close>: the values collected so far and the rest of the input.\<close>

datatype quantum =
    End
  | Corrupt
  | Quantum "nat list" string
  | Trailing "nat list"

definition skip_newlines :: "string \<Rightarrow> string" where
  "skip_newlines s = dropWhile newline s"

text \<open>After a padding character that follows \<open>j\<close> values.\<close>

definition decode_padding :: "nat list \<Rightarrow> string \<Rightarrow> quantum" where
  "decode_padding vs s =
     (if length vs < 2 then Corrupt
      else if length vs = 2 then
        (case skip_newlines s of
           [] \<Rightarrow> Corrupt
         | c # cs \<Rightarrow>
             if c \<noteq> CHR ''='' then Corrupt
             else if skip_newlines cs = [] then Quantum vs [] else Trailing vs)
      else if skip_newlines s = [] then Quantum vs [] else Trailing vs)"

fun decode_quantum :: "nat list \<Rightarrow> string \<Rightarrow> quantum" where
  "decode_quantum vs [] = (if vs = [] then End else Corrupt)"
| "decode_quantum vs (c # cs) =
     (case dec_char c of
        Some v \<Rightarrow> if length vs = 3 then Quantum (vs @ [v]) cs else decode_quantum (vs @ [v]) cs
      | None \<Rightarrow>
          if newline c then decode_quantum vs cs
          else if c \<noteq> CHR ''='' then Corrupt
          else decode_padding vs cs)"

definition digit :: "nat list \<Rightarrow> nat \<Rightarrow> nat" where
  "digit vs i = (if i < length vs then vs ! i else 0)"

text \<open>Two, three or four 6-bit values give one, two or three bytes.\<close>

definition quantum_bytes :: "nat list \<Rightarrow> string" where
  "quantum_bytes vs =
     (let val = digit vs 0 * 2 ^ 18 + digit vs 1 * 2 ^ 12 + digit vs 2 * 2 ^ 6 + digit vs 3
      in take (length vs - 1)
           [char_of (val div 2 ^ 16 mod 256), char_of (val div 2 ^ 8 mod 256), char_of (val mod 256)])"

lemma decode_quantum_length: "decode_quantum vs s = Quantum ws t \<Longrightarrow> length t < length s"
proof (induction vs s rule: decode_quantum.induct)
  case (2 vs c cs)
  show ?case
  proof (cases "dec_char c")
    case None
    with 2 show ?thesis
      by (auto simp: decode_padding_def split: if_splits list.splits)
  next
    case (Some v)
    with 2 show ?thesis by (auto split: if_splits)
  qed
qed (simp split: if_splits)

text \<open>The bytes and whether the whole input was well formed.\<close>

function DecodeString :: "string \<Rightarrow> string \<times> bool" where
  "DecodeString s =
     (case decode_quantum [] s of
        End \<Rightarrow> ([], True)
      | Corrupt \<Rightarrow> ([], False)
      | Trailing vs \<Rightarrow> (quantum_bytes vs, False)
      | Quantum vs t \<Rightarrow> (let (bs, ok) = DecodeString t in (quantum_bytes vs @ bs, ok)))"
  by pat_completeness auto
termination
  by (relation "measure length") (auto dest: decode_quantum_length)

declare DecodeString.simps [simp del]

section \<open>Encoding\<close>

definition encode3 :: "nat \<Rightarrow> nat \<Rightarrow> nat \<Rightarrow> string" where
  "encode3 a b c =
     (let val = a * 2 ^ 16 + b * 2 ^ 8 + c
      in [enc_char (val div 2 ^ 18 mod 64), enc_char (val div 2 ^ 12 mod 64),
          enc_char (val div 2 ^ 6 mod 64), enc_char (val mod 64)])"

fun EncodeToString :: "string \<Rightarrow> string" where
  "EncodeToString [] = []"
| "EncodeToString [a] = take 2 (encode3 (of_char a) 0 0) @ ''==''"
| "EncodeToString [a, b] = take 3 (encode3 (of_char a) (of_char b) 0) @ ''=''"
| "EncodeToString (a # b # c # s) =
     encode3 (of_char a) (of_char b) (of_char c) @ EncodeToString s"

section \<open>The round trip\<close>

lemma dec_enc_char [simp]: "v < 64 \<Longrightarrow> dec_char (enc_char v) = Some v"
  by (auto simp: dec_char_def enc_char_def of_char_of Let_def)

lemma dec_char_pad [simp]: "dec_char CHR ''='' = None" "\<not> newline CHR ''=''"
  by (simp_all add: dec_char_def newline_def)

lemma decode_quantum_4:
  "a < 64 \<Longrightarrow> b < 64 \<Longrightarrow> c < 64 \<Longrightarrow> d < 64 \<Longrightarrow>
   decode_quantum [] (enc_char a # enc_char b # enc_char c # enc_char d # s) = Quantum [a, b, c, d] s"
  by simp

lemma decode_quantum_3:
  "a < 64 \<Longrightarrow> b < 64 \<Longrightarrow> c < 64 \<Longrightarrow>
   decode_quantum [] (enc_char a # enc_char b # enc_char c # ''='') = Quantum [a, b, c] []"
  by (simp add: decode_padding_def skip_newlines_def)

lemma decode_quantum_2:
  "a < 64 \<Longrightarrow> b < 64 \<Longrightarrow>
   decode_quantum [] (enc_char a # enc_char b # ''=='') = Quantum [a, b] []"
  by (simp add: decode_padding_def skip_newlines_def)

lemma char_code_less: "(of_char c :: nat) < 256"
  using nat_of_char_less_256 [of c] by simp

lemma sextets:
  fixes v :: nat
  assumes "v < 2 ^ 24"
  shows "v div 2 ^ 18 mod 64 * 2 ^ 18 + v div 2 ^ 12 mod 64 * 2 ^ 12 + v div 2 ^ 6 mod 64 * 2 ^ 6
     + v mod 64 = v"
proof -
  define p where "p = v div 64"
  define q where "q = p div 64"
  define r where "r = q div 64"
  have v: "v = 64 * p + v mod 64" by (simp add: p_def)
  have p: "p = 64 * q + p mod 64" by (simp add: q_def)
  have q: "q = 64 * r + q mod 64" by (simp add: r_def)
  have r: "r mod 64 = r" using assms v p q by simp
  have "v div 2 ^ 6 = p" "v div 2 ^ 12 = q" "v div 2 ^ 18 = r"
    by (simp_all add: p_def q_def r_def flip: div_mult2_eq)
  with v p q r show ?thesis by simp
qed

lemma quantum_bytes_full:
  "quantum_bytes [p, q, r, s] =
     (let val = p * 2 ^ 18 + q * 2 ^ 12 + r * 2 ^ 6 + s
      in [char_of (val div 2 ^ 16 mod 256), char_of (val div 2 ^ 8 mod 256), char_of (val mod 256)])"
  by (simp add: quantum_bytes_def digit_def Let_def)

lemma quantum_bytes_4:
  fixes a b c :: nat
  assumes "a < 256" "b < 256" "c < 256" and val: "v = a * 2 ^ 16 + b * 2 ^ 8 + c"
  shows "quantum_bytes [v div 2 ^ 18 mod 64, v div 2 ^ 12 mod 64, v div 2 ^ 6 mod 64, v mod 64] =
     [char_of a, char_of b, char_of c]"
proof -
  have less: "v < 2 ^ 24" using assms by simp
  have "v div 2 ^ 16 = a" by (rule div_nat_eqI) (use assms in simp_all)
  moreover have "v div 2 ^ 8 = a * 256 + b" by (rule div_nat_eqI) (use assms in simp_all)
  moreover have "v = (a * 256 + b) * 256 + c" using val by simp
  ultimately have "v div 2 ^ 16 mod 256 = a" "v div 2 ^ 8 mod 256 = b" "v mod 256 = c"
    using assms(1-3) by (simp_all only: mod_mult_self3 mod_less)
  then show ?thesis by (simp only: quantum_bytes_full sextets [OF less] Let_def)
qed

lemma quantum_bytes_short:
  "quantum_bytes [u, v, w] = take 2 (quantum_bytes [u, v, w, 0])"
  "quantum_bytes [u, v] = take 1 (quantum_bytes [u, v, 0, 0])"
  by (simp_all add: quantum_bytes_def digit_def Let_def)

lemma decode_encode: "DecodeString (EncodeToString s) = (s, True)"
proof (induction s rule: EncodeToString.induct)
  case 1
  show ?case by (simp add: DecodeString.simps)
next
  case (2 a)
  define v where "v = (of_char a :: nat) * 2 ^ 16"
  have zero: "v div 2 ^ 6 mod 64 = 0" "v mod 64 = 0" by (simp_all add: v_def)
  have "quantum_bytes [v div 2 ^ 18 mod 64, v div 2 ^ 12 mod 64, v div 2 ^ 6 mod 64, v mod 64] =
      [char_of (of_char a :: nat), char_of (0::nat), char_of (0::nat)]"
    by (rule quantum_bytes_4) (simp_all add: v_def char_code_less)
  then have "quantum_bytes [v div 2 ^ 18 mod 64, v div 2 ^ 12 mod 64] = [a]"
    unfolding zero quantum_bytes_short(2) by simp
  moreover have "decode_quantum [] (EncodeToString [a]) =
      Quantum [v div 2 ^ 18 mod 64, v div 2 ^ 12 mod 64] []"
    using decode_quantum_2 [of "v div 2 ^ 18 mod 64" "v div 2 ^ 12 mod 64"]
    by (simp add: encode3_def v_def Let_def del: decode_quantum.simps)
  ultimately show ?case by (simp add: DecodeString.simps [of "EncodeToString [a]"]
      DecodeString.simps [of "[]"] del: EncodeToString.simps)
next
  case (3 a b)
  define v where "v = (of_char a :: nat) * 2 ^ 16 + of_char b * 2 ^ 8"
  have "v = (of_char a * 2 ^ 10 + of_char b * 4) * 64" by (simp add: v_def)
  then have zero: "v mod 64 = 0" by simp
  have "quantum_bytes [v div 2 ^ 18 mod 64, v div 2 ^ 12 mod 64, v div 2 ^ 6 mod 64, v mod 64] =
      [char_of (of_char a :: nat), char_of (of_char b :: nat), char_of (0::nat)]"
    by (rule quantum_bytes_4) (simp_all add: v_def char_code_less)
  then have "quantum_bytes [v div 2 ^ 18 mod 64, v div 2 ^ 12 mod 64, v div 2 ^ 6 mod 64] = [a, b]"
    unfolding zero quantum_bytes_short(1) by simp
  moreover have "decode_quantum [] (EncodeToString [a, b]) =
      Quantum [v div 2 ^ 18 mod 64, v div 2 ^ 12 mod 64, v div 2 ^ 6 mod 64] []"
    using decode_quantum_3 [of "v div 2 ^ 18 mod 64" "v div 2 ^ 12 mod 64" "v div 2 ^ 6 mod 64"]
    by (simp add: encode3_def v_def Let_def del: decode_quantum.simps)
  ultimately show ?case by (simp add: DecodeString.simps [of "EncodeToString [a, b]"]
      DecodeString.simps [of "[]"] del: EncodeToString.simps)
next
  case (4 a b c s)
  define v where "v = (of_char a :: nat) * 2 ^ 16 + of_char b * 2 ^ 8 + of_char c"
  have "quantum_bytes [v div 2 ^ 18 mod 64, v div 2 ^ 12 mod 64, v div 2 ^ 6 mod 64, v mod 64] = [a, b, c]"
    using quantum_bytes_4 [OF char_code_less [of a] char_code_less [of b] char_code_less [of c] v_def]
    by simp
  moreover have "decode_quantum [] (EncodeToString (a # b # c # s)) =
      Quantum [v div 2 ^ 18 mod 64, v div 2 ^ 12 mod 64, v div 2 ^ 6 mod 64, v mod 64] (EncodeToString s)"
    using decode_quantum_4 [of "v div 2 ^ 18 mod 64" "v div 2 ^ 12 mod 64" "v div 2 ^ 6 mod 64" "v mod 64"
        "EncodeToString s"]
    by (simp add: encode3_def v_def Let_def del: decode_quantum.simps)
  ultimately show ?case
    by (simp add: DecodeString.simps [of "EncodeToString (a # b # c # s)"] 4 del: EncodeToString.simps)
qed

end
