(* ===== verification/Process.thy ===== *)
theory Process
  imports Add_Resources Base64
begin

text \<open>
  \<open>ProcessResources\<close> of \<open>pkg/resource/res.go\<close>: the five targets, and for the default target the
  loop that patches the status of the composite, reads the meta resources (connection details,
  requirements, conditions, events, context) and sets the composed resources.
\<close>

section \<open>The state the function works on\<close>

record proc_state =
  ps_dxr :: Composite
  ps_desired :: desired_map
  ps_extraResources :: "ResourceSelector gomap"
  ps_requiredResources :: "ResourceSelector gomap"
  ps_conditions :: "ConditionResource list"
  ps_events :: "CreateEvent list"
  ps_contextData :: "gval gomap"

text \<open>An entry of \<open>spec.resources\<close> with its parsed base.\<close>

record ResourceEntry =
  re_Name :: string
  re_Base :: obj

section \<open>The default target\<close>

text \<open>\<open>GetValueInto\<close> with \<open>IsNotFound\<close> ignored, into a fresh map.\<close>

definition status_of :: "kube \<Rightarrow> string \<Rightarrow> obj \<Rightarrow> go_error + gval gomap" where
  "status_of K msg u =
     (case GetMapInto K u ''status'' [] of
        Found m \<Rightarrow> Inr m
      | NotFound \<Rightarrow> Inr []
      | Failed e \<Rightarrow> Inl (Wrapped msg e))"

definition patch_status :: "kube \<Rightarrow> Composite \<Rightarrow> obj \<Rightarrow> failure + Composite" where
  "patch_status K dxr u =
     (case xr_Resource dxr of
        None \<Rightarrow> Inl (Panic NilDereference)
      | Some x \<Rightarrow> lift_error (
          bind_result (status_of K ''cannot get desired composite status'' x) (\<lambda>dst.
          bind_result (status_of K ''cannot get templated composite status'' u) (\<lambda>src.
          bind_result (wrap_error ''cannot merge desired composite status'' (mergoMerge K dst src)) (\<lambda>dst'.
          bind_result (wrap_error ''cannot set desired composite status''
                         (SetValue K x ''status'' (GMap dst'))) (\<lambda>x'.
            Inr (dxr\<lparr>xr_Resource := Some x'\<rparr>)))))))"

text \<open>The decoding error of \<open>DecodeString\<close> is ignored; what was decoded is stored.\<close>

primrec store_details :: "string gomap option \<Rightarrow> string gomap \<Rightarrow> failure + string gomap option" where
  "store_details details [] = Inr details"
| "store_details details (e # con) =
     (case details of
        None \<Rightarrow> Inl (Panic NilMapWrite)
      | Some m \<Rightarrow> store_details (Some (AList.update (fst e) (fst (DecodeString (snd e))) m)) con)"

definition connection_details :: "kube \<Rightarrow> Composite \<Rightarrow> obj \<Rightarrow> failure + Composite" where
  "connection_details K dxr u =
     (let con = (case GetStringObject K u ''data'' of Inl _ \<Rightarrow> [] | Inr m \<Rightarrow> m)
      in bind_result (store_details (xr_ConnectionDetails dxr) con)
           (\<lambda>details. Inr (dxr\<lparr>xr_ConnectionDetails := details\<rparr>)))"

definition add_requirement ::
  "(string \<Rightarrow> go_error) \<Rightarrow> ResourceSelector gomap \<Rightarrow> ResourceSelector \<Rightarrow> string \<Rightarrow>
   go_error + ResourceSelector gomap"
where
  "add_requirement duplicate m selector k =
     (if map_of m k \<noteq> None then Inl (duplicate k) else Inr (AList.update k selector m))"

definition extra_requirements ::
  "kube \<Rightarrow> ResourceSelector gomap \<Rightarrow> obj \<Rightarrow> go_error + ResourceSelector gomap"
where
  "extra_requirements K extraResources u =
     bind_result (wrap_error ''cannot get extra resources requirements''
                    (GetExtraInto K u ''requirements'')) (\<lambda>ers.
       loop (\<lambda>m e. add_requirement DuplicateExtraKey m (Extra_ToResourceSelector (snd e)) (fst e))
         extraResources ers)"

definition required_requirements ::
  "kube \<Rightarrow> ResourceSelector gomap \<Rightarrow> obj \<Rightarrow> go_error + ResourceSelector gomap"
where
  "required_requirements K requiredResources u =
     bind_result (wrap_error ''cannot get required resources requirements''
                    (GetRequiredInto K u ''requirements'')) (\<lambda>rrs.
       loop (\<lambda>m e. add_requirement DuplicateRequiredKey m (Required_ToResourceSelector (snd e)) (fst e))
         requiredResources rrs)"

definition meta_resource :: "kube \<Rightarrow> proc_state \<Rightarrow> obj \<Rightarrow> failure + proc_state" where
  "meta_resource K s u =
     (let kind = getKind K u
      in if kind = ''CompositeConnectionDetails'' then
           bind_result (connection_details K (ps_dxr s) u) (\<lambda>dxr. Inr (s\<lparr>ps_dxr := dxr\<rparr>))
         else if kind = ''ExtraResources'' then
           bind_result (lift_error (extra_requirements K (ps_extraResources s) u))
             (\<lambda>m. Inr (s\<lparr>ps_extraResources := m\<rparr>))
         else if kind = ''RequiredResources'' then
           bind_result (lift_error (required_requirements K (ps_requiredResources s) u))
             (\<lambda>m. Inr (s\<lparr>ps_requiredResources := m\<rparr>))
         else if kind = ''Conditions'' then
           bind_result (lift_error (wrap_error ''cannot get condition resources''
                          (GetConditionsInto K u ''conditions'' (ps_conditions s))))
             (\<lambda>cs. Inr (s\<lparr>ps_conditions := cs\<rparr>))
         else if kind = ''Events'' then
           bind_result (lift_error (wrap_error ''cannot get event resources''
                          (GetEventsInto K u ''events'' (ps_events s))))
             (\<lambda>es. Inr (s\<lparr>ps_events := es\<rparr>))
         else if kind = ''Context'' then
           (case GetMapInto K u ''data'' (ps_contextData s) of
              Found m \<Rightarrow> Inr (s\<lparr>ps_contextData := m\<rparr>)
            | NotFound \<Rightarrow> Inl (Error (Wrapped ''cannot get context resource'' (External ''not found'')))
            | Failed e \<Rightarrow> Inl (Error (Wrapped ''cannot get context resource'' e)))
         else Inl (Error (InvalidMetaKind kind)))"

text \<open>How the loop classifies an object of the output.\<close>

definition is_xr :: "kube \<Rightarrow> obj \<Rightarrow> obj \<Rightarrow> bool" where
  "is_xr K oxr u \<longleftrightarrow> getAPIVersion K u = getAPIVersion K oxr \<and> getKind K u = getKind K oxr"

definition is_meta :: "kube \<Rightarrow> obj \<Rightarrow> bool" where
  "is_meta K u \<longleftrightarrow> getAPIVersion K u = MetaApiVersion"

definition default_step ::
  "kube \<Rightarrow> obj \<Rightarrow> proc_state \<times> duplicateChecker \<Rightarrow> obj \<Rightarrow>
   failure + (proc_state \<times> duplicateChecker)"
where
  "default_step K oxr sc u =
     (let (s, checker) = sc
      in if is_xr K oxr u then
           bind_result (patch_status K (ps_dxr s) u) (\<lambda>dxr. Inr (s\<lparr>ps_dxr := dxr\<rparr>, checker))
         else if is_meta K u then
           bind_result (meta_resource K s u) (\<lambda>s'. Inr (s', checker))
         else
           bind_result (process_ready K \<lparr>dc_Resource = Some u, dc_Ready = newReady K\<rparr>) (\<lambda>cd.
           bind_result (CheckAndSetDesired K checker (ps_desired s) cd) (\<lambda>(checker', desired).
             Inr (s\<lparr>ps_desired := desired\<rparr>, checker'))))"

section \<open>ProcessResources\<close>

definition patch_and_ready ::
  "kube \<Rightarrow> desired_map \<Rightarrow> AddResourcesOptions \<Rightarrow> failure + desired_map"
where
  "patch_and_ready K desired opts =
     bind_result (lift_error (MatchResources K desired (Data opts))) (\<lambda>desiredMatches.
     bind_result (AddResourcesTo_matches K desired desiredMatches opts) (\<lambda>desired'.
       process_ready_all K desired'))"

definition render_bases :: "ResourceEntry list \<Rightarrow> desired_map \<Rightarrow> desired_map" where
  "render_bases resources desired =
     fold (\<lambda>r. AList.update (re_Name r) \<lparr>dc_Resource = Some (re_Base r), dc_Ready = []\<rparr>)
       resources desired"

definition ProcessResources ::
  "kube \<Rightarrow> Composite \<Rightarrow> proc_state \<Rightarrow> target \<Rightarrow> ResourceEntry list \<Rightarrow> AddResourcesOptions \<Rightarrow>
   failure + (proc_state \<times> AddResourcesResult)"
where
  "ProcessResources K oxr s target resources opts =
     (let data = Data opts;
          finish = (\<lambda>s' object count.
            bind_result (setSuccessMsgs K
                \<lparr>res_Target = target, res_Object = object, MsgCount = count, Msgs = []\<rparr>)
              (\<lambda>result. Inr (s', result)))
      in if target = XR then
           bind_result (AddResourcesTo_composite K (ps_dxr s) opts) (\<lambda>dxr.
             finish (s\<lparr>ps_dxr := dxr\<rparr>) (XRObject dxr) 1)
         else if target = PatchDesired then
           bind_result (patch_and_ready K (ps_desired s) opts) (\<lambda>desired.
             finish (s\<lparr>ps_desired := desired\<rparr>) (DataObject data) (length data))
         else if target = PatchResources then
           bind_result (patch_and_ready K (render_bases resources (ps_desired s)) opts) (\<lambda>desired.
             finish (s\<lparr>ps_desired := desired\<rparr>) (DataObject data) (length data))
         else if target = Resources then
           bind_result (AddResourcesTo_desired K (ps_desired s) opts) (\<lambda>desired.
           bind_result (process_ready_all K desired) (\<lambda>desired'.
             finish (s\<lparr>ps_desired := desired'\<rparr>) (DataObject data) (length data)))
         else if target = Default then
           (if data = [] then finish s (DataObject data) 0
            else case xr_Resource oxr of
              None \<Rightarrow> Inl (Panic NilDereference)
            | Some x \<Rightarrow>
                bind_result (loop (default_step K x) (s, newDuplicateChecker) data) (\<lambda>(s', checker).
                  finish s' (DataObject data) (length data)))
         else finish s NoObject 0)"

section \<open>Requirements as a name registry\<close>

interpretation requirements: name_registry "add_requirement duplicate"
    "\<lambda>m. dom (map_of m)" for duplicate
  by unfold_locales (auto simp: add_requirement_def gomap_simps is_ok_iff split: if_splits)

lemma requirement_loop_result:
  "loop (\<lambda>m e. add_requirement duplicate m (sel (snd e)) (fst e)) m ers = Inr m' \<Longrightarrow>
   map_of m' = map_of m ++ (\<lambda>k. map_option sel (map_of ers k))"
proof (induction ers arbitrary: m)
  case (Cons e ers)
  obtain k v where e: "e = (k, v)" by (cases e)
  from Cons.prems have fresh: "map_of m k = None"
    and rest: "loop (\<lambda>m e. add_requirement duplicate m (sel (snd e)) (fst e))
      (AList.update k (sel v) m) ers = Inr m'"
    by (auto simp: e add_requirement_def result_simps split: if_splits)
  have "is_ok (loop (\<lambda>m e. add_requirement duplicate m (sel (snd e)) (fst e)) m (e # ers))"
    using Cons.prems by simp
  then have "k \<notin> fst ` set ers"
    using requirements.plain_loop_ok [of duplicate "\<lambda>e. sel (snd e)" fst m "e # ers"] by (simp add: e)
  then have "map_of ers k = None" by (simp add: map_of_eq_None_iff)
  with Cons.IH [OF rest] show ?case
    by (auto simp: e gomap_simps map_add_def fun_eq_iff split: option.splits)
qed (simp add: fun_eq_iff map_add_def)

text \<open>The loop over the requirements keeps what it added.\<close>

interpretation requirement_loop: loop_contract
    "\<lambda>m e. add_requirement duplicate m (sel (snd e)) (fst e)" "\<lambda>_. True"
    "\<lambda>m m'. map_le (map_of m) (map_of m')" "\<lambda>e m. map_of m (fst e) = Some (sel (snd e))"
  for duplicate sel
proof unfold_locales
  fix e :: "string \<times> 'a" and m m' :: "ResourceSelector gomap"
  show "map_of m (fst e) = Some (sel (snd e)) \<Longrightarrow> map_le (map_of m) (map_of m') \<Longrightarrow>
      map_of m' (fst e) = Some (sel (snd e))"
    by (force simp: map_le_def)
  assume "add_requirement duplicate m (sel (snd e)) (fst e) = Inr m'"
  then have "map_of m (fst e) = None" "map_of m' = (map_of m)(fst e \<mapsto> sel (snd e))"
    by (auto simp: add_requirement_def map_of_update split: if_splits)
  then show "map_le (map_of m) (map_of m')" and "map_of m' (fst e) = Some (sel (snd e))"
    by (auto simp: map_le_def)
qed (auto intro: map_le_trans)

section \<open>Composed objects in the default loop\<close>

definition is_composed :: "kube \<Rightarrow> obj \<Rightarrow> obj \<Rightarrow> bool" where
  "is_composed K oxr u \<longleftrightarrow> \<not> is_xr K oxr u \<and> \<not> is_meta K u"

definition ready_ok :: "kube \<Rightarrow> obj \<Rightarrow> bool" where
  "ready_ok K u \<longleftrightarrow> (case getAnnotations K u AnnotationKeyReady of
     None \<Rightarrow> True | Some v \<Rightarrow> v \<in> ready_values)"

text \<open>What is stored for a composed object: without both annotations, with its readiness.\<close>

definition composed_result :: "kube \<Rightarrow> obj \<Rightarrow> DesiredComposed" where
  "composed_result K u =
     (case getAnnotations K u AnnotationKeyReady of
        None \<Rightarrow> \<lparr>dc_Resource = Some (stripped K u), dc_Ready = newReady K\<rparr>
      | Some v \<Rightarrow> \<lparr>dc_Resource = Some (stripped K (removeAnnotations K u AnnotationKeyReady)),
                   dc_Ready = v\<rparr>)"

definition ready_composed :: "kube \<Rightarrow> obj \<Rightarrow> DesiredComposed" where
  "ready_composed K u =
     (case getAnnotations K u AnnotationKeyReady of
        None \<Rightarrow> \<lparr>dc_Resource = Some u, dc_Ready = newReady K\<rparr>
      | Some v \<Rightarrow> \<lparr>dc_Resource = Some (removeAnnotations K u AnnotationKeyReady), dc_Ready = v\<rparr>)"

definition kind_and_name :: "kube \<Rightarrow> obj \<Rightarrow> string" where
  "kind_and_name K u = getKind K u @ ''/'' @ getName K u"

definition composed_step ::
  "kube \<Rightarrow> desired_map \<times> duplicateChecker \<Rightarrow> obj \<Rightarrow> failure + (desired_map \<times> duplicateChecker)"
where
  "composed_step K dc u =
     bind_result (process_ready K \<lparr>dc_Resource = Some u, dc_Ready = newReady K\<rparr>) (\<lambda>cd.
     bind_result (CheckAndSetDesired K (snd dc) (fst dc) cd) (\<lambda>(checker', desired).
       Inr (desired, checker')))"

lemma resource_name_ready:
  "annotation_laws K \<Longrightarrow>
   resource_name K (removeAnnotations K u AnnotationKeyReady) = resource_name K u"
  by (simp add: GetResourceName_def annotation_lawsD split: option.split)

lemma CheckAndSetDesired_Some:
  "CheckAndSetDesired K c d \<lparr>dc_Resource = Some u, dc_Ready = r\<rparr> =
     (if resource_name K u \<in> dom c
      then Inl (Error (DuplicateName (resource_name K u) (the (c (resource_name K u)))
             (getKind K (stripped K u) @ ''/'' @ getName K (stripped K u))))
      else Inr (c(resource_name K u \<mapsto> getKind K (stripped K u) @ ''/'' @ getName K (stripped K u)),
             AList.update (resource_name K u) \<lparr>dc_Resource = Some (stripped K u), dc_Ready = r\<rparr> d))"
  by (simp add: CheckAndSetDesired_def split_beta CheckDuplicateName_eq)

lemma composed_step_eq:
  "composed_step K (d, c) u =
    (if \<not> ready_ok K u then Inl (Error (InvalidReady (the (getAnnotations K u AnnotationKeyReady))))
     else bind_result (CheckAndSetDesired K c d (ready_composed K u)) (\<lambda>(c', d'). Inr (d', c')))"
  by (auto simp: composed_step_def process_ready_def ready_ok_def ready_composed_def
      split: option.split)

lemma ready_composed_name:
  assumes "annotation_laws K"
  shows "CheckAndSetDesired K c d (ready_composed K u) =
    (if resource_name K u \<in> dom c
     then Inl (Error (DuplicateName (resource_name K u) (the (c (resource_name K u)))
            (kind_and_name K u)))
     else Inr (c(resource_name K u \<mapsto> kind_and_name K u),
            AList.update (resource_name K u) (composed_result K u) d))"
proof -
  have "getKind K (stripped K v) = getKind K v" "getName K (stripped K v) = getName K v" for v
    using assms by (simp_all add: GetResourceName_def annotation_lawsD)
  moreover have "getKind K (removeAnnotations K u k) = getKind K u"
    "getName K (removeAnnotations K u k) = getName K u" for k
    using assms by (simp_all add: annotation_lawsD)
  ultimately show ?thesis
    using resource_name_ready [OF assms, of u]
    by (simp add: ready_composed_def composed_result_def kind_and_name_def CheckAndSetDesired_Some
        split: option.split)
qed

lemma composed_step_ok:
  assumes "annotation_laws K"
  shows "is_ok (composed_step K (d, c) u) \<longleftrightarrow> ready_ok K u \<and> resource_name K u \<notin> dom c"
  by (simp add: composed_step_eq ready_composed_name [OF assms])

lemma composed_step_result:
  assumes "annotation_laws K" and "composed_step K (d, c) u = Inr (d', c')"
  shows "d' = AList.update (resource_name K u) (composed_result K u) d"
    and "dom c' = insert (resource_name K u) (dom c)"
  using assms(2)
  by (auto simp: composed_step_eq ready_composed_name [OF assms(1)] split: if_splits)

lemma composed_loop_ok:
  assumes "annotation_laws K"
  shows "is_ok (loop (composed_step K) (d, c) us) \<longleftrightarrow>
     (\<forall>u \<in> set us. ready_ok K u) \<and> distinct (map (resource_name K) us) \<and>
     resource_name K ` set us \<inter> dom c = {}"
proof (induction us arbitrary: d c)
  case (Cons u us)
  show ?case
  proof (cases "composed_step K (d, c) u")
    case (Inl e)
    then have "\<not> (ready_ok K u \<and> resource_name K u \<notin> dom c)"
      using composed_step_ok [OF assms, of d c u] by simp
    with Inl show ?thesis by auto
  next
    case (Inr dc)
    obtain d1 c1 where dc: "dc = (d1, c1)" by (cases dc)
    have "ready_ok K u \<and> resource_name K u \<notin> dom c"
      using composed_step_ok [OF assms, of d c u] Inr by simp
    with Cons.IH Inr dc composed_step_result(2) [OF assms] show ?thesis by auto
  qed
qed simp

lemma composed_loop_result:
  assumes "annotation_laws K" and "loop (composed_step K) (d, c) us = Inr (d', c')"
  shows "map_of d' n = (case find (\<lambda>u. resource_name K u = n) us of
     None \<Rightarrow> map_of d n | Some u \<Rightarrow> Some (composed_result K u))"
  using assms(2)
proof (induction us arbitrary: d c)
  case (Cons u us)
  then obtain d1 c1 where s: "composed_step K (d, c) u = Inr (d1, c1)"
    and l: "loop (composed_step K) (d1, c1) us = Inr (d', c')"
    by (auto simp: result_simps)
  have "distinct (map (resource_name K) (u # us))"
    using composed_loop_ok [OF assms(1), of d c "u # us"] Cons.prems by simp
  then have "find (\<lambda>v. resource_name K v = resource_name K u) us = None"
    by (auto simp: find_None_iff image_iff)
  moreover have "map_of d1 = (map_of d)(resource_name K u \<mapsto> composed_result K u)"
    using composed_step_result(1) [OF assms(1) s] by (simp add: map_of_update)
  ultimately show ?case
    using Cons.IH [OF l] by (cases "resource_name K u = n") (auto split: option.split)
qed simp

text \<open>The default loop runs its composed objects and its other objects independently.\<close>

lemma default_step_composed:
  "is_composed K x u \<Longrightarrow>
   default_step K x (s, c) u =
     bind_result (composed_step K (ps_desired s, c) u)
       (\<lambda>dc. Inr (s\<lparr>ps_desired := fst dc\<rparr>, snd dc))"
  by (auto simp: default_step_def is_composed_def composed_step_def bind_result_assoc split_beta
      intro!: bind_result_cong)

lemma meta_resource_desired:
  "meta_resource K s u = Inr s' \<Longrightarrow> ps_desired s' = ps_desired s"
  by (auto simp: meta_resource_def Let_def result_simps split: if_splits lookup.splits)

lemma meta_resource_frame:
  "meta_resource K s u = Inr s' \<Longrightarrow> meta_resource K (s\<lparr>ps_desired := d\<rparr>) u = Inr (s'\<lparr>ps_desired := d\<rparr>)"
  by (auto simp: meta_resource_def Let_def result_simps split: if_splits lookup.splits)

lemma default_step_other:
  assumes "\<not> is_composed K x u" and "default_step K x (s, c) u = Inr (s', c')"
  shows "ps_desired s' = ps_desired s" and "c' = c"
    and "default_step K x (s\<lparr>ps_desired := d\<rparr>, c0) u = Inr (s'\<lparr>ps_desired := d\<rparr>, c0)"
  using assms
  by (auto simp: default_step_def is_composed_def result_simps meta_resource_desired
      meta_resource_frame split: if_splits)

lemma default_loop_splits:
  "loop (default_step K x) (s, c) data = Inr (s', c') \<Longrightarrow>
   loop (composed_step K) (ps_desired s, c) (filter (is_composed K x) data) = Inr (ps_desired s', c') \<and>
   loop (default_step K x) (s\<lparr>ps_desired := d\<rparr>, c0) (filter (\<lambda>u. \<not> is_composed K x u) data) =
     Inr (s'\<lparr>ps_desired := d\<rparr>, c0)"
proof (induction data arbitrary: s c)
  case (Cons u data)
  then obtain s1 c1 where s: "default_step K x (s, c) u = Inr (s1, c1)"
    and l: "loop (default_step K x) (s1, c1) data = Inr (s', c')"
    by (auto simp: result_simps)
  show ?case
  proof (cases "is_composed K x u")
    case True
    with s obtain dc where "composed_step K (ps_desired s, c) u = Inr dc"
      "s1 = s\<lparr>ps_desired := fst dc\<rparr>" "c1 = snd dc"
      by (auto simp: default_step_composed result_simps)
    with True Cons.IH [OF l] show ?thesis by simp
  next
    case False
    from default_step_other [OF False s] False Cons.IH [OF l] show ?thesis by simp
  qed
qed simp

end
