(* ===== verification/Default_Target.thy ===== *)
theory Default_Target
  imports Process
begin

text \<open>
  What \<open>ProcessResources\<close> guarantees: the default loop as two independent loops, its freedom from
  panics, the effect of every kind of meta resource, and the effect of the four other targets.
\<close>

section \<open>The loop as an instance of the loop contracts\<close>

text \<open>The pointers the loop writes through are not nil.\<close>

definition writable :: "proc_state \<Rightarrow> bool" where
  "writable s \<longleftrightarrow> xr_Resource (ps_dxr s) \<noteq> None \<and> xr_ConnectionDetails (ps_dxr s) \<noteq> None"

definition names_of :: "proc_state \<Rightarrow> string set" where
  "names_of s = dom (map_of (ps_desired s))"

definition keeps_all :: "proc_state \<times> duplicateChecker \<Rightarrow> proc_state \<times> duplicateChecker \<Rightarrow> bool" where
  "keeps_all a b \<longleftrightarrow> names_of (fst a) \<subseteq> names_of (fst b) \<and> dom (snd a) \<subseteq> dom (snd b) \<and>
     dom (map_of (ps_extraResources (fst a))) \<subseteq> dom (map_of (ps_extraResources (fst b))) \<and>
     dom (map_of (ps_requiredResources (fst a))) \<subseteq> dom (map_of (ps_requiredResources (fst b)))"

lemma patch_status_Inr:
  "patch_status K dxr u = Inr dxr' \<Longrightarrow>
     (\<exists>x'. xr_Resource dxr' = Some x') \<and> xr_ConnectionDetails dxr' = xr_ConnectionDetails dxr"
  by (auto simp: patch_status_def result_simps split: option.splits)

lemma patch_status_panic:
  "xr_Resource dxr \<noteq> None \<Longrightarrow> patch_status K dxr u \<noteq> Inl (Panic p)"
  by (auto simp: patch_status_def result_simps)

text \<open>Connection details: all values decoded, stored over the old ones.\<close>

definition decoded :: "string gomap \<Rightarrow> string gomap" where
  "decoded con = map (\<lambda>e. (fst e, fst (DecodeString (snd e)))) con"

lemma store_details_Some:
  "store_details (Some m) con = Inr (Some (overlay m (decoded con)))"
  by (induction con arbitrary: m) (simp_all add: overlay_def decoded_def)

lemma connection_details_Some:
  assumes "xr_ConnectionDetails dxr = Some m"
  shows "connection_details K dxr u = Inr (dxr\<lparr>xr_ConnectionDetails :=
    Some (overlay m (case GetStringObject K u ''data'' of Inl e \<Rightarrow> [] | Inr con \<Rightarrow> decoded con))\<rparr>)"
  using assms by (auto simp: connection_details_def store_details_Some overlay_def decoded_def split: sum.split)

lemma requirements_grow:
  assumes "loop (\<lambda>m e. add_requirement duplicate m (sel (snd e)) (fst e)) m ers = Inr m'"
  shows "dom (map_of m) \<subseteq> dom (map_of m')"
  using requirement_loop.loop_grows [OF assms TrueI] by (rule map_le_implies_dom_le)

lemma meta_resource_keeps:
  assumes "writable s" and "meta_resource K s u = Inr s'"
  shows "writable s'"
    and "dom (map_of (ps_extraResources s)) \<subseteq> dom (map_of (ps_extraResources s'))"
    and "dom (map_of (ps_requiredResources s)) \<subseteq> dom (map_of (ps_requiredResources s'))"
proof -
  from assms(1) obtain m where m: "xr_ConnectionDetails (ps_dxr s) = Some m"
    by (auto simp: writable_def)
  show "writable s'"
    using assms m by (auto simp: meta_resource_def Let_def result_simps writable_def
        connection_details_Some split: if_splits lookup.splits)
  show "dom (map_of (ps_extraResources s)) \<subseteq> dom (map_of (ps_extraResources s'))"
    using assms(2) by (auto simp: meta_resource_def Let_def result_simps extra_requirements_def
        split: if_splits lookup.splits dest!: requirements_grow)
  show "dom (map_of (ps_requiredResources s)) \<subseteq> dom (map_of (ps_requiredResources s'))"
    using assms(2) by (auto simp: meta_resource_def Let_def result_simps required_requirements_def
        split: if_splits lookup.splits dest!: requirements_grow)
qed

lemma meta_resource_panic:
  assumes "writable s"
  shows "meta_resource K s u \<noteq> Inl (Panic p)"
proof -
  from assms obtain m where "xr_ConnectionDetails (ps_dxr s) = Some m" by (auto simp: writable_def)
  then show ?thesis
    by (auto simp: meta_resource_def Let_def result_simps connection_details_Some
        split: lookup.splits)
qed

lemma composed_step_panic: "composed_step K (d, c) u \<noteq> Inl (Panic p)"
proof -
  have "process_ready K \<lparr>dc_Resource = Some u, dc_Ready = newReady K\<rparr> \<noteq> Inl (Panic p)"
    by (auto simp: process_ready_def split: option.split)
  moreover have "CheckAndSetDesired K c d cd \<noteq> Inl (Panic p)"
    if "process_ready K \<lparr>dc_Resource = Some u, dc_Ready = newReady K\<rparr> = Inr cd" for cd
    using that by (auto simp: process_ready_def CheckAndSetDesired_def split_beta
        CheckDuplicateName_eq split: option.splits if_splits)
  ultimately show ?thesis
    by (auto simp: composed_step_def result_simps split: prod.splits)
qed

text \<open>The name a composed object is stored under.\<close>

definition final_name :: "kube \<Rightarrow> obj \<Rightarrow> string" where
  "final_name K u = resource_name K (the (dc_Resource (ready_composed K u)))"

lemma final_name_eq: "annotation_laws K \<Longrightarrow> final_name K u = resource_name K u"
  by (simp add: final_name_def ready_composed_def resource_name_ready split: option.split)

lemma composed_step_Inr:
  assumes "composed_step K (d, c) u = Inr (d', c')"
  shows "dom c' = insert (final_name K u) (dom c)"
    and "dom (map_of d') = insert (final_name K u) (dom (map_of d))"
proof -
  obtain w r where w: "ready_composed K u = \<lparr>dc_Resource = Some w, dc_Ready = r\<rparr>"
    by (cases "getAnnotations K u AnnotationKeyReady") (auto simp: ready_composed_def)
  show "dom c' = insert (final_name K u) (dom c)"
    and "dom (map_of d') = insert (final_name K u) (dom (map_of d))"
    using assms w
    by (auto simp: composed_step_eq final_name_def CheckAndSetDesired_Some map_of_update
        split: if_splits)
qed

text \<open>Every iteration keeps the pointers, forgets no name, and cannot panic; a composed object is
  in the desired state from its iteration on.\<close>

lemma default_step_composed_Inr:
  assumes "is_composed K x u" and "default_step K x (s, c) u = Inr (s', c')"
  shows "\<exists>d'. composed_step K (ps_desired s, c) u = Inr (d', c') \<and> s' = s\<lparr>ps_desired := d'\<rparr>"
  using assms by (auto simp: default_step_composed result_simps)

lemma default_step_other_Inr:
  assumes "\<not> is_composed K x u" and "default_step K x (s, c) u = Inr (s', c')"
  shows "c' = c \<and> ps_desired s' = ps_desired s \<and>
    ((\<exists>dxr. patch_status K (ps_dxr s) u = Inr dxr \<and> s' = s\<lparr>ps_dxr := dxr\<rparr>) \<or>
     meta_resource K s u = Inr s')"
  using assms default_step_other [OF assms]
  by (auto simp: default_step_def is_composed_def result_simps split: if_splits)

lemma default_step_writable:
  assumes "writable s" and "default_step K x (s, c) u = Inr (s', c')"
  shows "writable s'"
proof (cases "is_composed K x u")
  case True
  from default_step_composed_Inr [OF True assms(2)] assms(1) show ?thesis
    by (auto simp: writable_def)
next
  case False
  from default_step_other_Inr [OF False assms(2)] consider
      dxr where "patch_status K (ps_dxr s) u = Inr dxr" "s' = s\<lparr>ps_dxr := dxr\<rparr>"
    | "meta_resource K s u = Inr s'" by blast
  then show ?thesis
  proof cases
    case 1
    with patch_status_Inr [OF 1(1)] assms(1) show ?thesis by (auto simp: writable_def)
  next
    case 2
    with assms(1) show ?thesis by (rule meta_resource_keeps(1))
  qed
qed

lemma default_step_keeps:
  assumes "writable s" and "default_step K x (s, c) u = Inr (s', c')"
  shows "keeps_all (s, c) (s', c')"
proof (cases "is_composed K x u")
  case True
  then obtain d' where "composed_step K (ps_desired s, c) u = Inr (d', c')" "s' = s\<lparr>ps_desired := d'\<rparr>"
    using default_step_composed_Inr [OF True assms(2)] by blast
  with composed_step_Inr [of K "ps_desired s" c u d' c'] show ?thesis
    by (simp add: keeps_all_def names_of_def subset_insertI)
next
  case False
  from default_step_other_Inr [OF False assms(2)] consider
      dxr where "s' = s\<lparr>ps_dxr := dxr\<rparr>" "c' = c"
    | "meta_resource K s u = Inr s'" "c' = c" "ps_desired s' = ps_desired s" by blast
  then show ?thesis
  proof cases
    case 1
    then show ?thesis by (simp add: keeps_all_def names_of_def)
  next
    case 2
    with meta_resource_keeps(2,3) [OF assms(1) 2(1)] show ?thesis
      by (simp add: keeps_all_def names_of_def)
  qed
qed

lemma default_step_panic:
  assumes "writable s"
  shows "default_step K x (s, c) u \<noteq> Inl (Panic p)"
proof (cases "is_composed K x u")
  case True
  then show ?thesis
    by (auto simp: default_step_composed result_simps composed_step_panic)
next
  case False
  then show ?thesis
    using assms patch_status_panic meta_resource_panic [OF assms]
    by (auto simp: default_step_def is_composed_def result_simps writable_def)
qed

lemma default_step_does:
  assumes "default_step K x (s, c) u = Inr (s', c')" and "is_composed K x u"
  shows "final_name K u \<in> names_of s' \<and> final_name K u \<in> dom c'"
proof -
  obtain d' where "composed_step K (ps_desired s, c) u = Inr (d', c')" "s' = s\<lparr>ps_desired := d'\<rparr>"
    using default_step_composed_Inr [OF assms(2,1)] by blast
  with composed_step_Inr [of K "ps_desired s" c u d' c'] show ?thesis
    by (simp add: names_of_def del: domIff)
qed

interpretation default_loop: safe_loop "default_step K x" "\<lambda>a. writable (fst a)" keeps_all
    "\<lambda>u a. is_composed K x u \<longrightarrow> final_name K u \<in> names_of (fst a) \<and> final_name K u \<in> dom (snd a)"
    is_panic for K x
proof unfold_locales
  fix a b :: "proc_state \<times> duplicateChecker" and u e
  assume inv: "writable (fst a)"
  obtain s c s' c' where ab: "a = (s, c)" "b = (s', c')" by fastforce
  show "default_step K x a u = Inl e \<Longrightarrow> \<not> is_panic e"
    using inv default_step_panic [of s K x c u] by (auto simp: ab is_panic_def)
  assume step: "default_step K x a u = Inr b"
  then show "writable (fst b)" using inv by (auto simp: ab intro: default_step_writable)
  show "keeps_all a b" using inv step by (auto simp: ab intro: default_step_keeps)
  show "is_composed K x u \<longrightarrow> final_name K u \<in> names_of (fst b) \<and> final_name K u \<in> dom (snd b)"
    using step by (auto simp: ab dest: default_step_does)
next
  fix a b d :: "proc_state \<times> duplicateChecker"
  assume "keeps_all a b" and "keeps_all b d"
  then show "keeps_all a d" unfolding keeps_all_def by blast
qed (auto simp: keeps_all_def simp del: domIff)

section \<open>The two halves of the default loop\<close>

lemma other_step_ok:
  assumes "\<not> is_composed K x u"
  shows "is_ok (default_step K x (s\<lparr>ps_desired := d\<rparr>, c0) u) = is_ok (default_step K x (s, c) u)"
proof
  assume "is_ok (default_step K x (s\<lparr>ps_desired := d\<rparr>, c0) u)"
  then obtain s' c' where "default_step K x (s\<lparr>ps_desired := d\<rparr>, c0) u = Inr (s', c')"
    by (auto simp: is_ok_iff)
  from default_step_other(3) [OF assms this, of "ps_desired s" c]
  show "is_ok (default_step K x (s, c) u)" by simp
next
  assume "is_ok (default_step K x (s, c) u)"
  then obtain s' c' where "default_step K x (s, c) u = Inr (s', c')" by (auto simp: is_ok_iff)
  from default_step_other(3) [OF assms this]
  show "is_ok (default_step K x (s\<lparr>ps_desired := d\<rparr>, c0) u)" by simp
qed

lemma other_loop_ok:
  assumes "\<forall>u \<in> set us. \<not> is_composed K x u"
  shows "is_ok (loop (default_step K x) (s\<lparr>ps_desired := d\<rparr>, c0) us) =
    is_ok (loop (default_step K x) (s, c) us)"
  using assms
proof (induction us arbitrary: s c)
  case (Cons u us)
  then have u: "\<not> is_composed K x u" by simp
  show ?case
  proof (cases "default_step K x (s, c) u")
    case (Inl e)
    then have "\<not> is_ok (default_step K x (s\<lparr>ps_desired := d\<rparr>, c0) u)"
      using other_step_ok [OF u, where s = s and d = d and ?c0.0 = c0 and c = c] by simp
    with Inl show ?thesis by (simp add: not_is_ok_bind)
  next
    case (Inr t)
    then obtain s' c' where t: "default_step K x (s, c) u = Inr (s', c')" by (cases t) auto
    with default_step_other(3) [OF u t, of d c0] Cons show ?thesis by simp
  qed
qed simp

lemma default_loop_ok:
  "is_ok (loop (default_step K x) (s, c) data) \<longleftrightarrow>
     is_ok (loop (composed_step K) (ps_desired s, c) (filter (is_composed K x) data)) \<and>
     is_ok (loop (default_step K x) (s, c0) (filter (\<lambda>u. \<not> is_composed K x u) data))"
proof (induction data arbitrary: s c)
  case (Cons u data)
  show ?case
  proof (cases "is_composed K x u")
    case True
    show ?thesis
    proof (cases "composed_step K (ps_desired s, c) u")
      case (Inr dc)
      have "is_ok (loop (default_step K x) (s\<lparr>ps_desired := fst dc\<rparr>, c0)
          (filter (\<lambda>u. \<not> is_composed K x u) data)) =
        is_ok (loop (default_step K x) (s, c0) (filter (\<lambda>u. \<not> is_composed K x u) data))"
        by (rule other_loop_ok) simp
      with Inr True Cons.IH [of "s\<lparr>ps_desired := fst dc\<rparr>" "snd dc"] show ?thesis
        by (simp add: default_step_composed)
    qed (use True in \<open>simp add: default_step_composed\<close>)
  next
    case False
    show ?thesis
    proof (cases "default_step K x (s, c) u")
      case (Inl e)
      then have "\<not> is_ok (default_step K x (s, c0) u)"
        using other_step_ok [OF False, where s = s and d = "ps_desired s" and ?c0.0 = c0 and c = c] by simp
      with Inl False show ?thesis by (simp add: not_is_ok_bind)
    next
      case (Inr t)
      then obtain s' c' where t: "default_step K x (s, c) u = Inr (s', c')" by (cases t) auto
      have "default_step K x (s, c0) u = Inr (s', c0)"
        using default_step_other(3) [OF False t, of "ps_desired s" c0] default_step_other(1) [OF False t]
        by (cases s') simp
      with t False default_step_other(1,2) [OF False t] Cons.IH [of s' c] show ?thesis by simp
    qed
  qed
qed simp

section \<open>Success messages\<close>

lemma sort_replicate: "sort (replicate n (m :: string)) = replicate n m"
  by (simp add: sorted_sort_id sorted_replicate)

lemma setSuccessMsgs_Default:
  "setSuccessMsgs K \<lparr>res_Target = Default, res_Object = ob, MsgCount = n, Msgs = ms\<rparr> =
     Inr \<lparr>res_Target = Default, res_Object = ob, MsgCount = n, Msgs = replicate n []\<rparr>"
  by (simp add: setSuccessMsgs_def sort_replicate Default_def Resources_def PatchDesired_def
      PatchResources_def XR_def)

lemma ProcessResources_Default:
  assumes "xr_Resource oxr = Some x"
  shows "ProcessResources K oxr s Default rs opts =
    bind_result (loop (default_step K x) (s, newDuplicateChecker) (Data opts)) (\<lambda>(s', checker).
      Inr (s', \<lparr>res_Target = Default, res_Object = DataObject (Data opts),
        MsgCount = length (Data opts), Msgs = replicate (length (Data opts)) []\<rparr>))"
  using assms by (auto simp: ProcessResources_def Let_def setSuccessMsgs_Default split_beta)

section \<open>Panics of the other targets\<close>

lemma write_loop_composed:
  "dc_Resource v = Some u \<Longrightarrow> patched K ow v ds v' \<Longrightarrow> \<exists>u'. dc_Resource v' = Some u'"
proof -
  have "loop (patch_step K ow) (SetComposed (Some u)) ds = Inr (SetComposed r) \<Longrightarrow> r \<noteq> None" for r u
    by (induction ds arbitrary: u)
       (auto simp: patch_step_def SetData_composed result_simps simp del: SetData.simps)
  then show "dc_Resource v = Some u \<Longrightarrow> patched K ow v ds v' \<Longrightarrow> \<exists>u'. dc_Resource v' = Some u'"
    by (auto simp: patched_def)
qed

lemma render_bases_non_nil:
  "non_nil desired \<Longrightarrow> wf_gomap desired \<Longrightarrow>
   non_nil (render_bases rs desired) \<and> wf_gomap (render_bases rs desired)"
proof (induction rs arbitrary: desired)
  case (Cons r rs)
  from Cons.prems have "non_nil (AList.update (re_Name r) \<lparr>dc_Resource = Some (re_Base r), dc_Ready = []\<rparr> desired)"
    by (simp add: non_nil_def map_of_update)
  with Cons show ?case by (simp add: render_bases_def wf_gomap_update)
qed (simp add: render_bases_def)

lemma process_ready_panic:
  "process_ready K cd = Inl (Panic p) \<Longrightarrow> dc_Resource cd = None"
  by (auto simp: process_ready_def split: option.splits if_splits)

lemma process_ready_all_panic:
  assumes "non_nil desired" and "wf_gomap desired"
  shows "process_ready_all K desired \<noteq> Inl (Panic p)"
proof
  assume "process_ready_all K desired = Inl (Panic p)"
  then have "\<exists>e \<in> set desired. dc_Resource (snd e) = None"
    by (induction desired) (auto simp: result_simps dest: process_ready_panic)
  with assms show False
    by (fastforce simp: non_nil_def wf_gomap_def)
qed

lemma AddResourcesTo_matches_non_nil:
  assumes "non_nil desired" and "wf_gomap desired" and "wf_gomap matches"
    and "AddResourcesTo_matches K desired matches opts = Inr desired'"
  shows "non_nil desired' \<and> wf_gomap desired'"
proof -
  have l: "loop (patch_match K (Overwrite opts)) desired matches = Inr desired'"
    using assms(4) by (simp add: AddResourcesTo_matches_def result_simps)
  note r = patch_loop_result [OF assms(3) l]
  have "dc_Resource v' \<noteq> None" if v': "map_of desired' n = Some v'" for n v'
  proof -
    from v' r obtain v where v: "map_of desired n = Some v" by blast
    then obtain u where u: "dc_Resource v = Some u" using assms(1) by (auto simp: non_nil_def)
    show ?thesis
    proof (cases "map_of matches n")
      case None
      with r v v' u show ?thesis by fastforce
    next
      case (Some ds)
      with r v v' have "patched K (Overwrite opts) v ds v'" by fastforce
      from write_loop_composed [OF u this] show ?thesis by simp
    qed
  qed
  with r assms(2) show ?thesis by (simp add: non_nil_def)
qed

lemma MatchResources_wf: "MatchResources K desired data = Inr m \<Longrightarrow> wf_gomap m"
  using match_loop [of K desired data] by (auto simp: MatchResources_eq split: if_splits)

lemma patch_and_ready_panic:
  assumes "non_nil desired" and "wf_gomap desired"
  shows "patch_and_ready K desired opts \<noteq> Inl (Panic p)"
  using AddResourcesTo_matches_non_nil [OF assms] process_ready_all_panic
  by (auto simp: patch_and_ready_def result_simps AddResourcesTo_matches_def dest: MatchResources_wf)

lemma wf_put_resource: "wf_gomap d \<Longrightarrow> wf_gomap (put_resource K d u)"
  by (simp add: put_resource_def wf_gomap_update)

lemma AddResourcesTo_desired_panic:
  assumes "non_nil desired"
  shows "AddResourcesTo_desired K desired opts \<noteq> Inl (Panic p)"
    and "wf_gomap desired \<Longrightarrow> AddResourcesTo_desired K desired opts = Inr desired' \<Longrightarrow>
      non_nil desired' \<and> wf_gomap desired'"
proof -
  note eq = add_desired_loop_eq [OF assms, of K newDuplicateChecker "Data opts"]
  show "AddResourcesTo_desired K desired opts \<noteq> Inl (Panic p)"
    by (auto simp: AddResourcesTo_desired_def result_simps eq dest!: register_loop_error)
  assume wf: "wf_gomap desired" and "AddResourcesTo_desired K desired opts = Inr desired'"
  then obtain c where "loop (checker.register_step K (stripped K) (resource_name K) (put_resource K))
      (desired, newDuplicateChecker) (Data opts) = Inr (desired', c)"
    by (auto simp: AddResourcesTo_desired_def result_simps eq)
  then have "desired' = foldl (put_resource K) desired (Data opts)"
    by (simp add: checker.register_loop_result)
  moreover have "non_nil (foldl (put_resource K) d xs) \<and> wf_gomap (foldl (put_resource K) d xs)"
    if "non_nil d" "wf_gomap d" for d xs
    using that by (induction xs arbitrary: d) (simp_all add: wf_put_resource)
  ultimately show "non_nil desired' \<and> wf_gomap desired'" using assms wf by simp
qed

lemma AddResourcesTo_composite_some:
  assumes "xr_Resource xr = Some u"
  shows "AddResourcesTo_composite K xr opts \<noteq> Inl (Panic p)"
    and "AddResourcesTo_composite K xr opts = Inr xr' \<Longrightarrow> xr_Resource xr' \<noteq> None"
proof -
  show "AddResourcesTo_composite K xr opts \<noteq> Inl (Panic p)"
    by (simp add: AddResourcesTo_composite_def result_simps)
  have "loop (xr_step K ow) xr ds = Inr xr' \<Longrightarrow> xr_Resource xr = Some u \<Longrightarrow> xr_Resource xr' \<noteq> None"
    for ds xr u ow
    by (induction ds arbitrary: xr u)
       (auto simp: xr_step_def SetData_composite result_simps simp del: SetData.simps)
  then show "AddResourcesTo_composite K xr opts = Inr xr' \<Longrightarrow> xr_Resource xr' \<noteq> None"
    using assms by (auto simp: AddResourcesTo_composite_def result_simps)
qed

lemma setSuccessMsgs_data:
  "setSuccessMsgs K \<lparr>res_Target = t, res_Object = DataObject ds, MsgCount = length ds, Msgs = ms\<rparr> \<noteq>
     Inl (Panic p) \<or> t = XR"
  by (auto simp: setSuccessMsgs_def result_simps fill_msgs_def)

section \<open>Requirements\<close>

lemma requirement_loop:
  assumes "wf_gomap ers"
  shows "if fst ` set ers \<inter> dom (map_of m) = {}
    then \<exists>m'. loop (\<lambda>m e. add_requirement duplicate m (sel (snd e)) (fst e)) m ers = Inr m' \<and>
      map_of m' = map_of m ++ (\<lambda>k. map_option sel (map_of ers k))
    else \<exists>k \<in> fst ` set ers. k \<in> dom (map_of m) \<and>
      loop (\<lambda>m e. add_requirement duplicate m (sel (snd e)) (fst e)) m ers = Inl (duplicate k)"
proof (cases "loop (\<lambda>m e. add_requirement duplicate m (sel (snd e)) (fst e)) m ers")
  case (Inr m')
  with requirements.plain_loop_ok [of duplicate "\<lambda>e. sel (snd e)" fst m ers]
  have "fst ` set ers \<inter> dom (map_of m) = {}" by simp
  with Inr requirement_loop_result [OF Inr] show ?thesis by simp
next
  case (Inl e)
  with requirements.plain_loop_ok [of duplicate "\<lambda>e. sel (snd e)" fst m ers] assms
  have "fst ` set ers \<inter> dom (map_of m) \<noteq> {}" by (auto simp: wf_gomap_def)
  moreover have "\<exists>k \<in> fst ` set ers. k \<in> dom (map_of m) \<and> e = duplicate k"
    using Inl assms
  proof (induction ers arbitrary: m)
    case (Cons a ers)
    obtain k v where a: "a = (k, v)" by (cases a)
    from Cons.prems(2) have fresh: "k \<notin> fst ` set ers"
      by (auto simp: a map_of_eq_None_iff)
    show ?case
    proof (cases "k \<in> dom (map_of m)")
      case True
      with Cons.prems(1) a show ?thesis by (auto simp: add_requirement_def)
    next
      case False
      then have "add_requirement duplicate m (sel v) k = Inr (AList.update k (sel v) m)"
        by (auto simp: add_requirement_def)
      then have "loop (\<lambda>m e. add_requirement duplicate m (sel (snd e)) (fst e))
          (AList.update k (sel v) m) ers = Inl e"
        using Cons.prems(1) by (simp add: a)
      moreover have "wf_gomap ers" using Cons.prems(2) by (simp add: a)
      ultimately obtain k' where k': "k' \<in> fst ` set ers"
        "k' \<in> dom (map_of (AList.update k (sel v) m))" "e = duplicate k'"
        using Cons.IH by blast
      with fresh have "k' \<in> dom (map_of m)" by (auto simp: dom_map_of_update simp del: domIff)
      with k' show ?thesis by auto
    qed
  qed simp
  ultimately show ?thesis using Inl by simp
qed

lemma process_no_panic:
  assumes "xr_Resource oxr \<noteq> None" and "writable s"
    and "non_nil (ps_desired s)" and "wf_gomap (ps_desired s)"
  shows "ProcessResources K oxr s target rs opts \<noteq> Inl (Panic p)"
proof -
  obtain x where x: "xr_Resource oxr = Some x" using assms(1) by blast
  obtain u where u: "xr_Resource (ps_dxr s) = Some u" using assms(2) by (auto simp: writable_def)
  have default: "loop (default_step K x) (s, newDuplicateChecker) ds \<noteq> Inl (Panic p)" for ds
    using default_loop.loop_safe [of K x "(s, newDuplicateChecker)" ds "Panic p"] assms(2) by auto
  consider "target = XR" | "target = PatchDesired" | "target = PatchResources" | "target = Resources"
    | "target = Default" | "target \<notin> {XR, PatchDesired, PatchResources, Resources, Default}" by blast
  then show ?thesis
  proof cases
    case 1
    with AddResourcesTo_composite_some [OF u, of K opts] show ?thesis
      by (auto simp: ProcessResources_def Let_def result_simps setSuccessMsgs_def fill_msgs_def)
  next
    case 2
    with patch_and_ready_panic [OF assms(3,4)] show ?thesis
      by (auto simp: ProcessResources_def Let_def result_simps setSuccessMsgs_def fill_msgs_def)
  next
    case 3
    with patch_and_ready_panic render_bases_non_nil [OF assms(3,4)] show ?thesis
      by (auto simp: ProcessResources_def Let_def result_simps setSuccessMsgs_def fill_msgs_def)
  next
    case 4
    with AddResourcesTo_desired_panic [OF assms(3)] assms(4) process_ready_all_panic show ?thesis
      by (auto simp: ProcessResources_def Let_def result_simps setSuccessMsgs_def fill_msgs_def)
  next
    case 5
    with default show ?thesis by (simp add: ProcessResources_Default [OF x] result_simps)
  next
    case 6
    then show ?thesis
      by (simp add: ProcessResources_def Let_def result_simps setSuccessMsgs_def)
  qed
qed

section \<open>Properties\<close>

text \<open>C2: the default target succeeds exactly when the composed objects of the output have pairwise
  different resource names and valid ready annotations, and the rest of the output (patches of the
  composite, meta resources) goes through on its own: how the two kinds are interleaved never
  matters.\<close>

theorem default_target_succeeds_iff:
  assumes "annotation_laws K" and "xr_Resource oxr = Some x"
  shows "is_ok (ProcessResources K oxr s Default rs opts) \<longleftrightarrow>
    (\<forall>u \<in> set (Data opts). is_composed K x u \<longrightarrow> ready_ok K u) \<and>
    distinct (map (resource_name K) (filter (is_composed K x) (Data opts))) \<and>
    is_ok (loop (default_step K x) (s, newDuplicateChecker)
      (filter (\<lambda>u. \<not> is_composed K x u) (Data opts)))"
proof -
  have "is_ok (ProcessResources K oxr s Default rs opts) \<longleftrightarrow>
      is_ok (loop (default_step K x) (s, newDuplicateChecker) (Data opts))"
    by (auto simp: ProcessResources_Default [OF assms(2)] is_ok_bind split: sum.split)
  then show ?thesis
    using default_loop_ok [of K x s newDuplicateChecker "Data opts" newDuplicateChecker]
      composed_loop_ok [OF assms(1), of "ps_desired s" newDuplicateChecker
        "filter (is_composed K x) (Data opts)"]
    by (auto simp: newDuplicateChecker_def)
qed

definition example_state :: proc_state where
  "example_state =
     \<lparr>ps_dxr = \<lparr>xr_Resource = Some (example_object ''XR'' ''xr''), xr_ConnectionDetails = Some []\<rparr>,
      ps_desired = [], ps_extraResources = [], ps_requiredResources = [], ps_conditions = [],
      ps_events = [], ps_contextData = []\<rparr>"

definition example_oxr :: Composite where
  "example_oxr = \<lparr>xr_Resource = Some (example_object ''XR'' ''xr''), xr_ConnectionDetails = None\<rparr>"

definition example_output :: "string list \<Rightarrow> AddResourcesOptions" where
  "example_output names =
     \<lparr>Basename = [], Data = map (example_object ''Bucket'') names, Overwrite = True\<rparr>"

lemma example_composed [simp]:
  "is_composed example_kube (example_object ''XR'' ''xr'') (example_object ''Bucket'' n)"
  "ready_ok example_kube (example_object k n)"
  by (simp_all add: is_composed_def is_xr_def is_meta_def MetaApiVersion_def ready_ok_def)

theorem default_target_succeeds_iff_witness:
  "is_ok (ProcessResources example_kube example_oxr example_state Default []
     (example_output [''a'', ''b''])) \<and>
   \<not> is_ok (ProcessResources example_kube example_oxr example_state Default []
     (example_output [''a'', ''a'']))"
  using default_target_succeeds_iff [OF example_annotation_laws, of example_oxr
      "example_object ''XR'' ''xr''" example_state "[]" "example_output [''a'', ''b'']"]
    default_target_succeeds_iff [OF example_annotation_laws, of example_oxr
      "example_object ''XR'' ''xr''" example_state "[]" "example_output [''a'', ''a'']"]
  by (simp add: example_oxr_def example_output_def)

text \<open>C3: when the default target succeeds, the desired resources hold every composed object under
  its resource name, without the ready and name annotations and with the readiness the annotation
  asked for; every other desired resource is as before, and the rest of the state is what the
  other objects alone make of it. All success messages are empty.\<close>

theorem default_target_result:
  assumes "annotation_laws K" and "xr_Resource oxr = Some x"
    and "ProcessResources K oxr s Default rs opts = Inr (s', r)"
  shows "map_of (ps_desired s') n =
      (case find (\<lambda>u. resource_name K u = n) (filter (is_composed K x) (Data opts)) of
         None \<Rightarrow> map_of (ps_desired s) n
       | Some u \<Rightarrow> Some (composed_result K u)) \<and>
    loop (default_step K x) (s, newDuplicateChecker)
      (filter (\<lambda>u. \<not> is_composed K x u) (Data opts)) =
      Inr (s'\<lparr>ps_desired := ps_desired s\<rparr>, newDuplicateChecker) \<and>
    Msgs r = replicate (length (Data opts)) []"
proof -
  from assms(3) obtain c where l: "loop (default_step K x) (s, newDuplicateChecker) (Data opts) = Inr (s', c)"
    and r: "Msgs r = replicate (length (Data opts)) []"
    by (auto simp: ProcessResources_Default [OF assms(2)] result_simps)
  note halves = default_loop_splits [OF l, of "ps_desired s" newDuplicateChecker]
  from composed_loop_result [OF assms(1) halves [THEN conjunct1]] halves r show ?thesis by simp
qed

theorem default_target_result_witness:
  "\<exists>s' r. ProcessResources example_kube example_oxr example_state Default []
       (example_output [''a'']) = Inr (s', r) \<and>
     map_of (ps_desired s') ''a'' =
       Some \<lparr>dc_Resource = Some (example_object ''Bucket'' ''a''), dc_Ready = []\<rparr>"
proof -
  let ?x = "example_object ''XR'' ''xr''"
  have oxr: "xr_Resource example_oxr = Some ?x" by (simp add: example_oxr_def)
  have "is_ok (loop (default_step example_kube ?x) (example_state, newDuplicateChecker)
      (Data (example_output [''a''])))"
    using default_loop_ok [of example_kube ?x example_state newDuplicateChecker
        "Data (example_output [''a''])" newDuplicateChecker]
      composed_loop_ok [OF example_annotation_laws, of "ps_desired example_state" newDuplicateChecker
        "[example_object ''Bucket'' ''a'']"]
    by (simp add: example_output_def newDuplicateChecker_def)
  then obtain s' r where run: "ProcessResources example_kube example_oxr example_state Default []
      (example_output [''a'']) = Inr (s', r)"
    by (auto simp: ProcessResources_Default [OF oxr] is_ok_iff)
  have "newReady example_kube = []" by (simp add: example_kube_def)
  with run default_target_result [OF example_annotation_laws oxr run, of "''a''"] show ?thesis
    by (simp add: example_output_def composed_result_def)
qed

text \<open>C12: when the pointers the function works with are not nil, no target makes
  \<open>ProcessResources\<close> panic, whatever the output and the input are.\<close>

theorem ProcessResources_no_panic:
  assumes "xr_Resource oxr \<noteq> None" and "writable s"
    and "non_nil (ps_desired s)" and "wf_gomap (ps_desired s)"
  shows "ProcessResources K oxr s target rs opts \<noteq> Inl (Panic p)"
  using assms by (rule process_no_panic)

theorem ProcessResources_no_panic_witness:
  "ProcessResources example_kube example_oxr example_state Default [] (example_output [[]]) \<noteq>
     Inl (Panic NilMapWrite)"
  by (rule ProcessResources_no_panic)
     (simp_all add: example_oxr_def example_state_def writable_def non_nil_def)

text \<open>C27: an \<open>ExtraResources\<close> object adds a selector for every key of its requirements when none
  of the keys is known yet, and the selector is the translation of the requirement; otherwise it
  fails with the duplicate key. \<open>RequiredResources\<close> behaves the same on its own map.\<close>

theorem requirements_are_added:
  assumes "GetExtraInto K u ''requirements'' = Inr ers" and "wf_gomap ers"
    and "GetRequiredInto K u ''requirements'' = Inr rrs" and "wf_gomap rrs"
  shows "(if fst ` set ers \<inter> dom (map_of extra) = {}
      then \<exists>m. extra_requirements K extra u = Inr m \<and>
        map_of m = map_of extra ++ (\<lambda>k. map_option Extra_ToResourceSelector (map_of ers k))
      else \<exists>k \<in> fst ` set ers. k \<in> dom (map_of extra) \<and>
        extra_requirements K extra u = Inl (DuplicateExtraKey k)) \<and>
    (if fst ` set rrs \<inter> dom (map_of required) = {}
      then \<exists>m. required_requirements K required u = Inr m \<and>
        map_of m = map_of required ++ (\<lambda>k. map_option Required_ToResourceSelector (map_of rrs k))
      else \<exists>k \<in> fst ` set rrs. k \<in> dom (map_of required) \<and>
        required_requirements K required u = Inl (DuplicateRequiredKey k))"
  using requirement_loop [OF assms(2), of extra DuplicateExtraKey Extra_ToResourceSelector]
    requirement_loop [OF assms(4), of required DuplicateRequiredKey Required_ToResourceSelector]
  by (simp only: extra_requirements_def required_requirements_def assms(1,3) wrap_error.simps
      bind_result.simps)

theorem requirements_are_added_witness:
  "\<exists>m. extra_requirements example_kube [] [(''requirements'', GMap [(''cfg'', GString ''base'')])] =
     Inr m \<and>
     map_of m ''cfg'' = Some (Extra_ToResourceSelector (example_requirement\<lparr>er_MatchName := ''base''\<rparr>))"
  using requirements_are_added [of example_kube "[(''requirements'', GMap [(''cfg'', GString ''base'')])]"
      "[(''cfg'', example_requirement\<lparr>er_MatchName := ''base''\<rparr>)]"
      "[(''cfg'', as_required (example_requirement\<lparr>er_MatchName := ''base''\<rparr>))]" "[]" "[]"]
  by (auto simp: example_kube_def map_string_def)

text \<open>C28: connection details arrive decoded: a value that is the base64 encoding of some bytes is
  stored as these bytes, details of other names are kept, and malformed base64 is no error.\<close>

theorem connection_details_decode:
  assumes "xr_ConnectionDetails dxr = Some m" and "GetStringObject K u ''data'' = Inr con"
    and "wf_gomap con"
  shows "\<exists>m'. connection_details K dxr u = Inr (dxr\<lparr>xr_ConnectionDetails := Some m'\<rparr>) \<and>
    (\<forall>k b. map_of con k = Some (EncodeToString b) \<longrightarrow> map_of m' k = Some b) \<and>
    (\<forall>k. map_of con k = None \<longrightarrow> map_of m' k = map_of m k)"
proof -
  have wf: "wf_gomap (decoded con)"
    using assms(3) by (simp add: wf_gomap_def decoded_def comp_def)
  have dec: "map_of (decoded con) k = map_option (\<lambda>v. fst (DecodeString v)) (map_of con k)" for k
    by (induction con) (auto simp: decoded_def)
  show ?thesis
    by (intro exI [of _ "overlay m (decoded con)"])
       (simp add: connection_details_Some [OF assms(1)] assms(2) map_of_overlay [OF wf] map_add_def
          dec decode_encode)
qed

theorem connection_details_decode_witness:
  "\<exists>m'. connection_details example_kube \<lparr>xr_Resource = None, xr_ConnectionDetails = Some [(''a'', ''1'')]\<rparr>
      [(''data'', GMap [(''b'', GString (EncodeToString ''hi''))])] =
      Inr \<lparr>xr_Resource = None, xr_ConnectionDetails = Some m'\<rparr> \<and>
    map_of m' ''b'' = Some ''hi'' \<and> map_of m' ''a'' = Some ''1''"
  using connection_details_decode [of "\<lparr>xr_Resource = None, xr_ConnectionDetails = Some [(''a'', ''1'')]\<rparr>"
      "[(''a'', ''1'')]" example_kube "[(''data'', GMap [(''b'', GString (EncodeToString ''hi''))])]"
      "[(''b'', EncodeToString ''hi'')]"]
  by (fastforce simp: example_kube_def map_string_def)

text \<open>C29: an object of the composite's own kind patches the composite's status: the new status is
  the old one merged with the object's, where a missing status counts as empty; nothing else of the
  composite changes.\<close>

theorem patch_status_correct:
  assumes "path_laws K clash" and "xr_Resource dxr = Some x"
    and "patch_status K dxr u = Inr dxr'"
  shows "\<exists>x' dst src status. xr_Resource dxr' = Some x' \<and>
    xr_ConnectionDetails dxr' = xr_ConnectionDetails dxr \<and>
    (GetMapInto K x ''status'' [] = Found dst \<or> GetMapInto K x ''status'' [] = NotFound \<and> dst = []) \<and>
    (GetMapInto K u ''status'' [] = Found src \<or> GetMapInto K u ''status'' [] = NotFound \<and> src = []) \<and>
    mergoMerge K dst src = Inr status \<and>
    GetValue K x' ''status'' = Found (GMap status) \<and>
    (\<forall>p. \<not> clash ''status'' p \<longrightarrow> GetValue K x' p = GetValue K x p)"
proof -
  from assms(2,3) obtain x' dst src status where
    d: "status_of K ''cannot get desired composite status'' x = Inr dst"
    and s: "status_of K ''cannot get templated composite status'' u = Inr src"
    and m: "mergoMerge K dst src = Inr status"
    and x': "SetValue K x ''status'' (GMap status) = Inr x'" "dxr' = dxr\<lparr>xr_Resource := Some x'\<rparr>"
    by (auto simp: patch_status_def result_simps)
  have found: "GetMapInto K w ''status'' [] = Found t \<or> GetMapInto K w ''status'' [] = NotFound \<and> t = []"
    if "status_of K msg w = Inr t" for msg w t
    using that by (auto simp: status_of_def split: lookup.splits)
  from assms(1) x'(1) have "GetValue K x' ''status'' = Found (GMap status)"
    and "\<forall>p. \<not> clash ''status'' p \<longrightarrow> GetValue K x' p = GetValue K x p"
    unfolding path_laws_def by blast+
  with found [OF d] found [OF s] m x'(2) show ?thesis by auto
qed

theorem patch_status_correct_witness:
  "\<exists>dxr'. patch_status example_kube \<lparr>xr_Resource = Some [(''spec'', GInt 1)], xr_ConnectionDetails = None\<rparr>
       [(''status'', GMap [(''ready'', GBool True)])] = Inr dxr' \<and>
     (\<exists>x'. xr_Resource dxr' = Some x' \<and>
       GetValue example_kube x' ''status'' = Found (GMap [(''ready'', GBool True)]) \<and>
       GetValue example_kube x' ''spec'' = Found (GInt 1))"
proof -
  let ?x = "[(''spec'', GInt 1)]" and ?u = "[(''status'', GMap [(''ready'', GBool True)])]"
  let ?dxr = "\<lparr>xr_Resource = Some ?x, xr_ConnectionDetails = None\<rparr>"
  have get: "GetMapInto example_kube ?x ''status'' [] = NotFound"
    "GetMapInto example_kube ?u ''status'' [] = Found [(''ready'', GBool True)]"
    "GetValue example_kube ?x ''spec'' = Found (GInt 1)"
    "mergoMerge example_kube [] [(''ready'', GBool True)] = Inr [(''ready'', GBool True)]"
    by (simp_all add: example_kube_def overlay_def)
  obtain dxr' where run: "patch_status example_kube ?dxr ?u = Inr dxr'"
    by (simp add: patch_status_def status_of_def get) (simp add: example_kube_def)
  from patch_status_correct [OF example_path_laws _ run] show ?thesis
    by (auto simp: run get)
qed

end
