(* ===== verification/Other_Targets.thy ===== *)
theory Other_Targets
  imports Default_Target
begin

text \<open>
  What \<open>ProcessResources\<close> does for the targets \<open>PatchDesired\<close>, \<open>PatchResources\<close>, \<open>Resources\<close> and
  \<open>XR\<close>, from \<open>MatchResources\<close> or \<open>AddResourcesTo\<close> to the success messages.
\<close>

section \<open>The patch targets\<close>

lemma patch_and_ready_result:
  assumes "patch_and_ready K desired opts = Inr desired'"
  shows "(\<forall>d \<in> set (Data opts). matched K desired d) \<and>
    dom (map_of desired') = dom (map_of desired) \<and>
    (\<forall>n v. map_of desired n = Some v \<longrightarrow>
       (\<exists>v1 v2. patched K (Overwrite opts) v (patches_for K n (Data opts)) v1 \<and>
          process_ready K v1 = Inr v2 \<and> map_of desired' n = Some v2))"
proof -
  from assms obtain m d where m: "MatchResources K desired (Data opts) = Inr m"
    and d: "AddResourcesTo_matches K desired m opts = Inr d" and r: "process_ready_all K d = Inr desired'"
    by (auto simp: patch_and_ready_def result_simps)
  note am = matches_result [OF m d] and pr = process_ready_all_map [OF r]
  have "dom (map_of desired') = dom (map_of d)"
    using pr(1) by (simp add: dom_map_of_conv_image_fst flip: set_map)
  moreover have "\<exists>v1 v2. patched K (Overwrite opts) v (patches_for K n (Data opts)) v1 \<and>
      process_ready K v1 = Inr v2 \<and> map_of desired' n = Some v2" if "map_of desired n = Some v" for n v
  proof -
    from am that obtain v1 where v1: "map_of d n = Some v1"
      "if patches_for K n (Data opts) = [] then v1 = v
       else patched K (Overwrite opts) v (patches_for K n (Data opts)) v1" by blast
    then have "patched K (Overwrite opts) v (patches_for K n (Data opts)) v1"
      by (auto simp: patched_def split: if_splits)
    with pr(2) [OF v1(1)] show ?thesis by blast
  qed
  moreover have "\<forall>d \<in> set (Data opts). matched K desired d"
    using m by (auto simp: MatchResources_eq split: if_splits)
  ultimately show ?thesis using am by simp
qed

lemma dom_render_bases:
  "dom (map_of (render_bases rs desired)) = re_Name ` set rs \<union> dom (map_of desired)"
  by (induction rs arbitrary: desired)
     (simp_all add: render_bases_def dom_map_of_update del: domIff)

section \<open>The target Resources\<close>

text \<open>An object overridden field by field by another: its fields in their order, each with the other's
  value if the other has that field, and then the fields only the other has.\<close>

definition overridden :: "obj \<Rightarrow> obj \<Rightarrow> obj" where
  "overridden from data =
     map (\<lambda>(k, v). (k, case map_of data k of None \<Rightarrow> v | Some v' \<Rightarrow> v')) from @
     filter (\<lambda>(k, v). map_of from k = None) data"

text \<open>The resources after the output was added: each output object under its name, with the other
  fields of what was desired under that name.\<close>

definition added :: "kube \<Rightarrow> desired_map \<Rightarrow> obj list \<Rightarrow> (string \<rightharpoonup> DesiredComposed)" where
  "added K desired data n =
     (case find (\<lambda>d. resource_name K d = n) data of
        None \<Rightarrow> map_of desired n
      | Some d \<Rightarrow>
          Some \<lparr>dc_Resource = Some
             (case Option.bind (map_of desired n) dc_Resource of
                None \<Rightarrow> stripped K d
              | Some from \<Rightarrow> overridden from (stripped K d)), dc_Ready = []\<rparr>)"

lemma overridden_lookup:
  "map_of (overridden from data) k =
     (case map_of from k of
        None \<Rightarrow> map_of data k
      | Some v \<Rightarrow> Some (case map_of data k of None \<Rightarrow> v | Some v' \<Rightarrow> v'))"
proof -
  have "map_of (map (\<lambda>(k, v). (k, f k v)) m) k = map_option (f k) (map_of m k)"
    for f :: "string \<Rightarrow> gval \<Rightarrow> gval" and m by (induction m) auto
  moreover have "map_of (filter (\<lambda>(k, v). map_of from k = None) data) k =
      (if map_of from k = None then map_of data k else None)" by (induction data) auto
  ultimately show ?thesis by (simp add: overridden_def map_add_def split: option.split)
qed

lemma update_overridden:
  "wf_gomap from \<Longrightarrow> AList.update k v from = overridden from [(k, v)]"
proof (induction "from")
  case (Cons e es)
  have "map (\<lambda>(k', v'). (k', case if k' = k then Some v else None of None \<Rightarrow> v' | Some x \<Rightarrow> x)) es = es"
    if "k \<notin> fst ` set es" using that by (intro map_idI) (auto simp: image_iff split: if_splits)
  with Cons show ?case
    by (cases e) (auto simp: overridden_def wf_gomap_def)
qed (simp add: overridden_def)

lemma overridden_Cons:
  assumes "wf_gomap ((k, v) # data)"
  shows "overridden (overridden from [(k, v)]) data = overridden from ((k, v) # data)"
proof -
  have fresh: "map_of data k = None" using assms by (simp add: wf_gomap_def map_of_eq_None_iff)
  have "map_of (overridden from [(k, v)]) (fst e) = None \<longleftrightarrow> map_of from (fst e) = None"
    if "e \<in> set data" for e
  proof -
    have "fst e \<noteq> k" using that fresh by (auto simp: map_of_eq_None_iff)
    then show ?thesis by (simp add: overridden_lookup split: option.split)
  qed
  then have only: "filter (\<lambda>(k', v'). map_of (overridden from [(k, v)]) k' = None) data =
      filter (\<lambda>(k', v'). map_of from k' = None) data"
    by (intro filter_cong refl) (simp add: split_beta)
  show ?thesis
    unfolding overridden_def [of "overridden from [(k, v)]"] only
    using fresh by (auto simp: overridden_def split: option.splits)
qed

lemma merged_overridden:
  assumes "wf_gomap from" and "wf_gomap data"
  shows "merged data from = overridden from data"
proof -
  have overlay: "overlay m data = overridden m data" if "wf_gomap data" "wf_gomap m" for m data
    using that
  proof (induction data arbitrary: m)
    case (Cons e data)
    obtain k v where e: "e = (k, v)" by (cases e)
    have "wf_gomap data" using Cons.prems(1) by (simp add: wf_gomap_def)
    moreover have "wf_gomap (AList.update k v m)" using Cons.prems(2) by (rule wf_gomap_update)
    ultimately have "overlay m (e # data) = overridden (AList.update k v m) data"
      using Cons.IH by (simp add: overlay_def e)
    then show ?case
      using overridden_Cons Cons.prems by (simp add: e update_overridden)
  qed (simp add: overlay_def overridden_def split_beta)
  have "overlay [] from = from"
    using overlay [OF assms(1), of "[]"] by (simp add: overridden_def filter_True split_beta)
  with overlay [OF assms(2,1)] show ?thesis by (simp add: merged_def)
qed

lemma combined_overridden:
  assumes "\<And>v u. map_of desired (resource_name K d) = Some v \<Longrightarrow> dc_Resource v = Some u \<Longrightarrow> wf_gomap u"
    and "wf_gomap (stripped K d)"
  shows "combined K desired d =
    (case Option.bind (map_of desired (resource_name K d)) dc_Resource of
       None \<Rightarrow> stripped K d
     | Some from \<Rightarrow> overridden from (stripped K d))"
  using assms by (auto simp: combined_def merged_overridden split: option.split)

lemma AddResourcesTo_desired_added:
  assumes "non_nil desired"
    and "\<And>n v u. map_of desired n = Some v \<Longrightarrow> dc_Resource v = Some u \<Longrightarrow> wf_gomap u"
    and "\<And>d. d \<in> set (Data opts) \<Longrightarrow> wf_gomap (stripped K d)"
    and "distinct (map (resource_name K) (Data opts))"
  shows "\<exists>desired'. AddResourcesTo_desired K desired opts = Inr desired' \<and>
    map_of desired' = added K desired (Data opts)"
proof -
  from AddResourcesTo_desired_result [OF assms(1), of K opts] assms(4) obtain d where
    d: "AddResourcesTo_desired K desired opts = Inr d"
    "\<And>n. map_of d n = (case find (\<lambda>d. resource_name K d = n) (Data opts) of
       None \<Rightarrow> map_of desired n
     | Some d \<Rightarrow> Some \<lparr>dc_Resource = Some (combined K desired d), dc_Ready = []\<rparr>)"
    by auto
  have "map_of d n = added K desired (Data opts) n" for n
  proof (cases "find (\<lambda>d. resource_name K d = n) (Data opts)")
    case (Some u)
    then have "u \<in> set (Data opts)" "resource_name K u = n" by (auto simp: find_Some_iff)
    with combined_overridden [OF assms(2) assms(3)] Some d(2) show ?thesis
      by (simp add: added_def)
  qed (simp add: d(2) added_def)
  with d(1) show ?thesis by auto
qed

text \<open>An added object field by field.\<close>

lemma added_fields:
  assumes "non_nil desired" and "distinct (map (resource_name K) data)" and "d \<in> set data"
  shows "\<exists>u. added K desired data (resource_name K d) = Some \<lparr>dc_Resource = Some u, dc_Ready = []\<rparr> \<and>
    (\<forall>k. map_of u k =
       (case map_of (stripped K d) k of
          Some field \<Rightarrow> Some field
        | None \<Rightarrow> (case map_of desired (resource_name K d) of
            None \<Rightarrow> None
          | Some v \<Rightarrow> map_of (the (dc_Resource v)) k)))"
proof -
  have "find (\<lambda>u. resource_name K u = resource_name K d) data = Some d"
    by (rule find_distinct [OF assms(2,3) refl])
  moreover have "\<exists>from. dc_Resource v = Some from" if "map_of desired (resource_name K d) = Some v" for v
    using assms(1) that by (auto simp: non_nil_def)
  ultimately show ?thesis
    by (cases "map_of desired (resource_name K d)")
       (fastforce simp: added_def overridden_lookup split: option.splits)+
qed

lemma setSuccessMsgs_Resources:
  "setSuccessMsgs K \<lparr>res_Target = Resources, res_Object = DataObject data, MsgCount = length data,
       Msgs = []\<rparr> =
     Inr \<lparr>res_Target = Resources, res_Object = DataObject data, MsgCount = length data,
       Msgs = sort (map (message K ''created resource'') data)\<rparr>"
  by (simp add: setSuccessMsgs_def fill_msgs_def Resources_def PatchDesired_def)

lemma ProcessResources_Resources:
  "ProcessResources K oxr s Resources rs opts =
     bind_result (AddResourcesTo_desired K (ps_desired s) opts) (\<lambda>desired.
     bind_result (process_ready_all K desired) (\<lambda>desired'.
       Inr (s\<lparr>ps_desired := desired'\<rparr>,
         \<lparr>res_Target = Resources, res_Object = DataObject (Data opts), MsgCount = length (Data opts),
          Msgs = sort (map (message K ''created resource'') (Data opts))\<rparr>)))"
  by (simp add: ProcessResources_def Let_def setSuccessMsgs_Resources)

section \<open>The target XR\<close>

text \<open>The leaves of the whole output, in the order they are written.\<close>

definition all_written :: "obj list \<Rightarrow> (string \<times> gval) list" where
  "all_written data = concat (map (\<lambda>d. written (GMap d)) data)"

lemma xr_step_Inr:
  assumes "xr_Resource xr = Some u" and "xr_step K ow xr d = Inr xr1"
  shows "\<exists>u1. xr1 = xr\<lparr>xr_Resource := Some u1\<rparr> \<and> loop (write_leaf K ow) u (written (GMap d)) = Inr u1"
  using assms by (auto simp: xr_step_def SetData_composite result_simps simp del: SetData.simps)

lemma xr_loop:
  "xr_Resource xr = Some u \<Longrightarrow> loop (xr_step K ow) xr data = Inr xr' \<Longrightarrow>
   \<exists>u'. xr' = xr\<lparr>xr_Resource := Some u'\<rparr> \<and> loop (write_leaf K ow) u (all_written data) = Inr u'"
proof (induction data arbitrary: xr u)
  case (Cons d data)
  then obtain xr1 where xr1: "xr_step K ow xr d = Inr xr1" and rest: "loop (xr_step K ow) xr1 data = Inr xr'"
    by (auto simp: result_simps)
  from xr_step_Inr [OF Cons.prems(1) xr1] obtain u1 where u1: "xr1 = xr\<lparr>xr_Resource := Some u1\<rparr>"
    "loop (write_leaf K ow) u (written (GMap d)) = Inr u1" by blast
  then have "xr_Resource xr1 = Some u1" by simp
  from Cons.IH [OF this rest] u1 show ?case
    by (auto simp: all_written_def loop_append)
qed (auto simp: all_written_def)

text \<open>A leaf that no later leaf disturbs is read back, whatever was written before it.\<close>

lemma last_write_wins:
  assumes "path_laws K clash" and "loop (write_leaf K ow) u (before @ l # after) = Inr u'"
    and "\<forall>x \<in> set after. \<not> clash (fst x) (fst l)"
  shows "GetValue K u' (fst l) = Found (snd l)"
proof -
  obtain u1 u2 where "write_leaf K ow u1 l = Inr u2" and rest: "loop (write_leaf K ow) u2 after = Inr u'"
    using assms(2) by (auto simp: loop_append result_simps)
  then have "SetValue K u1 (fst l) (snd l) = Inr u2" by (blast dest: write_leaf_Inr)
  then have "GetValue K u2 (fst l) = Found (snd l)" using assms(1) by (simp add: path_laws_def)
  moreover have "GetValue K u' (fst l) = GetValue K u2 (fst l)"
    using rest assms(3)
  proof (induction after arbitrary: u2)
    case (Cons x after)
    then obtain u3 where u3: "write_leaf K ow u2 x = Inr u3" "loop (write_leaf K ow) u3 after = Inr u'"
      by (auto simp: result_simps)
    then have "GetValue K u3 (fst l) = GetValue K u2 (fst l)"
      using assms(1) Cons.prems(2) write_leaf_Inr [OF u3(1)] by (auto simp: path_laws_def)
    with Cons.IH [OF u3(2)] Cons.prems(2) show ?case by simp
  qed simp
  ultimately show ?thesis by simp
qed

section \<open>Properties\<close>

text \<open>C4: the targets \<open>PatchDesired\<close> and \<open>PatchResources\<close> fail when a patch names no resource; on
  success they keep the set of names (the latter after it has added its own base resources), and
  every resource is the old one with its patches applied in order and its ready annotation
  processed. Nothing but the desired resources changes.\<close>

theorem patch_targets_correct:
  assumes "target \<in> {PatchDesired, PatchResources}"
    and "base = (if target = PatchResources then render_bases rs (ps_desired s) else ps_desired s)"
  shows "((\<exists>d \<in> set (Data opts). resource_name K d \<notin> dom (map_of base)) \<longrightarrow>
      ProcessResources K oxr s target rs opts =
        Inl (Error (MatchFailed (length (filter (matched K base) (Data opts))) (length (Data opts))))) \<and>
    (ProcessResources K oxr s target rs opts = Inr (s', r) \<longrightarrow>
      s' = s\<lparr>ps_desired := ps_desired s'\<rparr> \<and>
      dom (map_of (ps_desired s')) =
        (if target = PatchResources then re_Name ` set rs else {}) \<union> dom (map_of (ps_desired s)) \<and>
      (\<forall>n v. map_of base n = Some v \<longrightarrow>
         (\<exists>v1 v2. patched K (Overwrite opts) v (patches_for K n (Data opts)) v1 \<and>
            process_ready K v1 = Inr v2 \<and> map_of (ps_desired s') n = Some v2)))"
proof -
  have step: "ProcessResources K oxr s target rs opts =
      bind_result (patch_and_ready K base opts) (\<lambda>desired.
        bind_result (setSuccessMsgs K \<lparr>res_Target = target, res_Object = DataObject (Data opts),
            MsgCount = length (Data opts), Msgs = []\<rparr>) (\<lambda>result. Inr (s\<lparr>ps_desired := desired\<rparr>, result)))"
    using assms by (auto simp: ProcessResources_def Let_def)
  have dom: "dom (map_of base) =
      (if target = PatchResources then re_Name ` set rs else {}) \<union> dom (map_of (ps_desired s))"
    using assms(2) dom_render_bases by auto
  show ?thesis
  proof (intro conjI impI)
    assume "\<exists>d \<in> set (Data opts). resource_name K d \<notin> dom (map_of base)"
    then have "\<not> (\<forall>d \<in> set (Data opts). matched K base d)" by blast
    then show "ProcessResources K oxr s target rs opts =
        Inl (Error (MatchFailed (length (filter (matched K base) (Data opts))) (length (Data opts))))"
      by (simp only: step patch_and_ready_def MatchResources_eq if_False lift_error.simps
          bind_result.simps)
  next
    assume "ProcessResources K oxr s target rs opts = Inr (s', r)"
    then obtain d where d: "patch_and_ready K base opts = Inr d" "s' = s\<lparr>ps_desired := d\<rparr>"
      by (auto simp: step result_simps)
    then show "s' = s\<lparr>ps_desired := ps_desired s'\<rparr>" by simp
    from patch_and_ready_result [OF d(1)] d(2) dom
    show "dom (map_of (ps_desired s')) =
        (if target = PatchResources then re_Name ` set rs else {}) \<union> dom (map_of (ps_desired s))"
      and "\<forall>n v. map_of base n = Some v \<longrightarrow>
         (\<exists>v1 v2. patched K (Overwrite opts) v (patches_for K n (Data opts)) v1 \<and>
            process_ready K v1 = Inr v2 \<and> map_of (ps_desired s') n = Some v2)"
      by simp_all
  qed
qed

theorem patch_targets_correct_witness:
  "ProcessResources example_kube example_oxr example_state PatchDesired [] (example_output [''a'']) =
     Inl (Error (MatchFailed 0 1))"
  using patch_targets_correct [of PatchDesired "ps_desired example_state" "[]" example_state
      "example_output [''a'']" example_kube example_oxr]
  by (simp add: example_state_def example_output_def)

text \<open>C5: the target \<open>Resources\<close> succeeds exactly when the names of the output are pairwise
  different and every ready annotation among the resulting desired resources is valid. Then it
  changes the desired resources only: under the name of an output object is that object, with
  those fields of the resource desired there that the output object does not have itself, so that
  the output wins; every other resource is kept, all of them with their ready annotation
  processed; and there is one sorted message for each output object.\<close>

theorem resources_target_correct:
  assumes "non_nil (ps_desired s)" and "wf_gomap (ps_desired s)"
    and "\<And>n v u. map_of (ps_desired s) n = Some v \<Longrightarrow> dc_Resource v = Some u \<Longrightarrow> wf_gomap u"
    and "\<And>d. d \<in> set (Data opts) \<Longrightarrow> wf_gomap (stripped K d)"
  shows "(is_ok (ProcessResources K oxr s Resources rs opts) \<longleftrightarrow>
      distinct (map (resource_name K) (Data opts)) \<and>
      (\<forall>n v. added K (ps_desired s) (Data opts) n = Some v \<longrightarrow> is_ok (process_ready K v))) \<and>
    (ProcessResources K oxr s Resources rs opts = Inr (s', r) \<longrightarrow>
      s' = s\<lparr>ps_desired := ps_desired s'\<rparr> \<and>
      (\<forall>n. case added K (ps_desired s) (Data opts) n of
         None \<Rightarrow> map_of (ps_desired s') n = None
       | Some v \<Rightarrow> \<exists>v'. process_ready K v = Inr v' \<and> map_of (ps_desired s') n = Some v') \<and>
      (\<forall>d \<in> set (Data opts). \<exists>u v'.
         process_ready K \<lparr>dc_Resource = Some u, dc_Ready = []\<rparr> = Inr v' \<and>
         map_of (ps_desired s') (resource_name K d) = Some v' \<and>
         (\<forall>k. map_of u k =
            (case map_of (stripped K d) k of
               Some field \<Rightarrow> Some field
             | None \<Rightarrow> (case map_of (ps_desired s) (resource_name K d) of
                 None \<Rightarrow> None
               | Some v \<Rightarrow> map_of (the (dc_Resource v)) k)))) \<and>
      Msgs r = sort (map (message K ''created resource'') (Data opts)))"
proof (cases "distinct (map (resource_name K) (Data opts))")
  case True
  obtain d where d: "AddResourcesTo_desired K (ps_desired s) opts = Inr d"
    and added: "map_of d = added K (ps_desired s) (Data opts)"
    using AddResourcesTo_desired_added [OF assms(1) _ assms(4) True] assms(3) by blast
  then have wf: "wf_gomap d" using AddResourcesTo_desired_panic(2) [OF assms(1,2)] by blast
  have "case added K (ps_desired s) (Data opts) n of None \<Rightarrow> map_of d' n = None
      | Some v \<Rightarrow> \<exists>v'. process_ready K v = Inr v' \<and> map_of d' n = Some v'"
    if "process_ready_all K d = Inr d'" for d' n
    using process_ready_all_map(2,3) [OF that, of n] added by (auto split: option.split)
  moreover have "\<exists>u v'. process_ready K \<lparr>dc_Resource = Some u, dc_Ready = []\<rparr> = Inr v' \<and>
         map_of d' (resource_name K x) = Some v' \<and>
         (\<forall>k. map_of u k =
            (case map_of (stripped K x) k of
               Some field \<Rightarrow> Some field
             | None \<Rightarrow> (case map_of (ps_desired s) (resource_name K x) of
                 None \<Rightarrow> None
               | Some v \<Rightarrow> map_of (the (dc_Resource v)) k)))"
    if "process_ready_all K d = Inr d'" "x \<in> set (Data opts)" for d' x
    using added_fields [OF assms(1) True that(2)] process_ready_all_map(2) [OF that(1)] added by metis
  ultimately show ?thesis
    using True d added process_ready_all_map_ok [OF wf, of K]
    by (auto simp: ProcessResources_Resources result_simps is_ok_bind split: sum.split)
next
  case False
  with AddResourcesTo_desired_result [OF assms(1), of K opts] show ?thesis
    by (auto simp: ProcessResources_Resources)
qed

definition example_over :: AddResourcesOptions where
  "example_over = \<lparr>Basename = [], Data = [(''spec'', GInt 2) # example_object ''Bucket'' ''a''],
     Overwrite = True\<rparr>"

theorem resources_target_correct_witness:
  "\<exists>s' r v u. ProcessResources example_kube example_oxr
       (example_state\<lparr>ps_desired := [(''a'', \<lparr>dc_Resource = Some [(''spec'', GInt 1), (''old'', GInt 0)],
          dc_Ready = []\<rparr>)]\<rparr>) Resources [] example_over = Inr (s', r) \<and>
     map_of (ps_desired s') ''a'' = Some v \<and> dc_Resource v = Some u \<and>
     map_of u ''spec'' = Some (GInt 2) \<and> map_of u ''old'' = Some (GInt 0)"
proof -
  let ?s = "example_state\<lparr>ps_desired := [(''a'', \<lparr>dc_Resource = Some [(''spec'', GInt 1), (''old'', GInt 0)],
      dc_Ready = []\<rparr>)]\<rparr>" and ?d = "(''spec'', GInt 2) # example_object ''Bucket'' ''a''"
  have annotations: "getAnnotations example_kube ?d = Map.empty" "getName example_kube ?d = ''a''"
    by (simp_all add: example_kube_accessors example_object_def map_field_def string_field_def fun_eq_iff)
  have name: "resource_name example_kube ?d = ''a''" "stripped example_kube ?d = ?d"
    using annotations by (simp_all add: GetResourceName_def)
       (simp add: example_kube_accessors example_object_def map_field_def)
  have data: "Data example_over = [?d]" by (simp add: example_over_def)
  have wf: "non_nil (ps_desired ?s)" "wf_gomap (ps_desired ?s)" by (simp_all add: non_nil_def)
  have fields: "wf_gomap u" if "map_of (ps_desired ?s) n = Some v" "dc_Resource v = Some u" for n v u
    using that by (auto split: if_splits)
  have objects: "wf_gomap (stripped example_kube d)" if "d \<in> set (Data example_over)" for d
    using that by (simp add: data name) (simp add: example_object_def wf_gomap_def)
  let ?u = "overridden [(''spec'', GInt 1), (''old'', GInt 0)] ?d"
  have added: "added example_kube (ps_desired ?s) (Data example_over) n =
      (if n = ''a'' then Some \<lparr>dc_Resource = Some ?u, dc_Ready = []\<rparr> else None)" for n
    by (simp add: added_def data name)
  have ready: "process_ready example_kube \<lparr>dc_Resource = Some ?u, dc_Ready = []\<rparr> =
      Inr \<lparr>dc_Resource = Some ?u, dc_Ready = []\<rparr>"
    by (simp add: process_ready_def example_kube_accessors example_object_def map_field_def
        string_field_def overridden_def)
  have "is_ok (ProcessResources example_kube example_oxr ?s Resources [] example_over) \<longleftrightarrow>
      distinct (map (resource_name example_kube) (Data example_over)) \<and>
      (\<forall>n v. added example_kube (ps_desired ?s) (Data example_over) n = Some v \<longrightarrow>
         is_ok (process_ready example_kube v))"
    by (rule resources_target_correct [THEN conjunct1, OF wf]) (fact fields objects)+
  then have "is_ok (ProcessResources example_kube example_oxr ?s Resources [] example_over)"
    by (simp only: added) (simp add: data ready)
  then obtain s' r where run:
    "ProcessResources example_kube example_oxr ?s Resources [] example_over = Inr (s', r)"
    by (auto simp: is_ok_iff)
  have "\<forall>n. case added example_kube (ps_desired ?s) (Data example_over) n of
         None \<Rightarrow> map_of (ps_desired s') n = None
       | Some v \<Rightarrow> \<exists>v'. process_ready example_kube v = Inr v' \<and> map_of (ps_desired s') n = Some v'"
    by (rule resources_target_correct [THEN conjunct2, THEN mp, THEN conjunct2, THEN conjunct1, OF wf _ _ run])
       (fact fields objects)+
  from this [rule_format, of "''a''", unfolded added]
  have "map_of (ps_desired s') ''a'' = Some \<lparr>dc_Resource = Some ?u, dc_Ready = []\<rparr>"
    by (simp add: ready)
  with run show ?thesis by (force simp: overridden_lookup example_object_def)
qed

text \<open>C6: the target \<open>XR\<close> changes the composite only, and of it only the object: every leaf of the
  output that no later leaf disturbs can be read back at its path (the last write wins), a path
  that no leaf disturbs has its old value, and the one message names the composite.\<close>

theorem xr_target_correct:
  assumes "path_laws K clash" and "xr_Resource (ps_dxr s) = Some u"
    and "ProcessResources K oxr s XR rs opts = Inr (s', r)"
  shows "\<exists>u'. s' = s\<lparr>ps_dxr := (ps_dxr s)\<lparr>xr_Resource := Some u'\<rparr>\<rparr> \<and>
    Msgs r = [message K ''updated xr'' u'] \<and>
    (\<forall>before l after. all_written (Data opts) = before @ l # after \<and>
        (\<forall>x \<in> set after. \<not> clash (fst x) (fst l)) \<longrightarrow> GetValue K u' (fst l) = Found (snd l)) \<and>
    (\<forall>q. (\<forall>l \<in> set (all_written (Data opts)). \<not> clash (fst l) q) \<longrightarrow>
        GetValue K u' q = GetValue K u q)"
proof -
  from assms(3) obtain xr' where xr': "AddResourcesTo_composite K (ps_dxr s) opts = Inr xr'"
    "s' = s\<lparr>ps_dxr := xr'\<rparr>"
    "setSuccessMsgs K \<lparr>res_Target = XR, res_Object = XRObject xr', MsgCount = 1, Msgs = []\<rparr> = Inr r"
    by (auto simp: ProcessResources_def Let_def result_simps)
  then have "loop (xr_step K (Overwrite opts)) (ps_dxr s) (Data opts) = Inr xr'"
    by (simp add: AddResourcesTo_composite_def result_simps)
  from xr_loop [OF assms(2) this] obtain u' where u': "xr' = (ps_dxr s)\<lparr>xr_Resource := Some u'\<rparr>"
    "loop (write_leaf K (Overwrite opts)) u (all_written (Data opts)) = Inr u'" by blast
  have "Msgs r = [message K ''updated xr'' u']"
    using xr'(3) u'(1)
    by (auto simp: setSuccessMsgs_def fill_msgs_def XR_def Resources_def PatchDesired_def PatchResources_def)
  with xr'(2) u' show ?thesis
    using last_write_wins [OF assms(1)] write_loop_frame [OF assms(1)]
    by (intro exI [of _ u']) auto
qed

definition example_xr_output :: AddResourcesOptions where
  "example_xr_output = \<lparr>Basename = [], Data = [[(''spec'', GMap [(''x'', GInt 1)])]], Overwrite = True\<rparr>"

lemma example_xr_written: "all_written (Data example_xr_output) = [(''spec.x'', GInt 1)]"
  by (simp add: all_written_def example_xr_output_def written_def child_key_def is_wrapped_def
      has_suffix_def trim_prefix_def has_prefix_def)

theorem xr_target_correct_witness:
  "\<exists>s' r u'. ProcessResources example_kube example_oxr example_state XR [] example_xr_output = Inr (s', r) \<and>
     ps_dxr s' = (ps_dxr example_state)\<lparr>xr_Resource := Some u'\<rparr> \<and>
     GetValue example_kube u' ''spec.x'' = Found (GInt 1)"
proof -
  have xr: "xr_Resource (ps_dxr example_state) = Some (example_object ''XR'' ''xr'')"
    by (simp add: example_state_def)
  have "is_ok (ProcessResources example_kube example_oxr example_state XR [] example_xr_output)"
    by (simp add: ProcessResources_def AddResourcesTo_composite_def xr_step_def example_xr_output_def
        example_state_def SetData_composite written_def child_key_def is_wrapped_def has_suffix_def
        trim_prefix_def has_prefix_def write_leaf_def write_value_def setSuccessMsgs_def fill_msgs_def
        del: SetData.simps)
       (simp add: example_kube_def example_object_def XR_def Resources_def PatchDesired_def
        PatchResources_def fill_msgs_def)
  then obtain s' r where run: "ProcessResources example_kube example_oxr example_state XR []
      example_xr_output = Inr (s', r)" by (auto simp: is_ok_iff)
  from xr_target_correct [OF example_path_laws xr run] run show ?thesis
    unfolding example_xr_written by fastforce
qed

end
