(* ===== verification/Render.thy ===== *)
theory Render
  imports KCL_Input "HOL-Library.List_Lexorder" "HOL-Library.Char_ord"
begin

text \<open>
  \<open>render.go\<close>: the choice between the inline path and the krm-kcl pipeline, the KCL arguments
  with the parameters in sorted key order, and the two ways the inline path calls KCL. The
  classification of sources, KCL itself, the resource readers and writers, the JSON encoders and
  the file system are parameters.
\<close>

section \<open>Parameters\<close>

record kcl_options =
  WithCode :: string
  WithOptions :: "string list"
  WithExternalPkgs :: "string list"
  WithSettings :: "string list"
  opt_Overrides :: "string list"
  opt_PathSelector :: "string list"
  opt_DisableNone :: bool
  opt_Debug :: int
  opt_SortKeys :: bool
  opt_ShowHidden :: bool
  opt_StrictRangeCheck :: bool

record vendor_options =
  NoStyle :: bool
  Entries :: "string list"
  vo_Arguments :: "string list"
  ExternalPackages :: "string list"
  vo_Debug :: bool
  vo_DisableNone :: bool
  vo_Overrides :: "string list"
  vo_PathSelectors :: "string list"
  vo_Settings :: "string list"
  vo_ShowHidden :: bool
  vo_SortKeys :: bool
  vo_StrictRangeCheck :: bool
  vo_Vendor :: bool

text \<open>\<open>RunVendor\<close> stands for \<open>Complete\<close>, \<open>Validate\<close> and \<open>Run\<close> of the command line's options, with the
  program text that was written to the entry.\<close>

record 'n kcl_lib =
  IsOCI :: "string \<Rightarrow> bool"
  IsLocal :: "string \<Rightarrow> bool"
  IsRemoteUrl :: "string \<Rightarrow> bool"
  IsGit :: "string \<Rightarrow> bool"
  IsVCSDomain :: "string \<Rightarrow> bool"
  NewKpmClient :: "go_error option"
  LoadDepListFromConfig :: "string \<Rightarrow> go_error + string list"
  MarshalInput :: "KCLInput \<Rightarrow> go_error + string"
  MarshalString :: "string \<Rightarrow> go_error + string"
  MarshalMap :: "string gomap \<Rightarrow> go_error + string"
  Environ :: "string list"
  GetenvPATH :: string
  MkdirTemp :: "go_error + string"
  WriteFile :: "string \<Rightarrow> string \<Rightarrow> go_error option"
  Run :: "string \<Rightarrow> kcl_options \<Rightarrow> go_error + string"
  RunVendor :: "string \<Rightarrow> vendor_options \<Rightarrow> go_error + string"
  ReadNodes :: "string \<Rightarrow> go_error + 'n"
  UnwrapResources :: "'n \<Rightarrow> go_error + 'n"
  WriteNodes :: "'n \<Rightarrow> go_error + string"
  KCLRunAPIVersion :: string
  KCLRunKind :: string
  MarshalYaml :: "KCLInput \<Rightarrow> go_error + string"
  PipelineExecute :: "string \<Rightarrow> go_error + string"

section \<open>The arguments\<close>

definition isInlineSource :: "'n kcl_lib \<Rightarrow> string \<Rightarrow> bool" where
  "isInlineSource L src \<longleftrightarrow>
     \<not> IsOCI L src \<and> \<not> IsLocal L src \<and> \<not> IsRemoteUrl L src \<and> \<not> IsGit L src \<and> \<not> IsVCSDomain L src"

definition boolToInt32 :: "bool \<Rightarrow> int" where
  "boolToInt32 v = (if v then 1 else 0)"

definition renderKey :: "'n kcl_lib \<Rightarrow> KCLInput \<Rightarrow> go_error + string" where
  "renderKey L i = MarshalInput L i"

text \<open>The loop of \<open>paramsJSON\<close>; the flag tells the first key, which no comma precedes.\<close>

fun params_entries ::
  "'n kcl_lib \<Rightarrow> (string \<Rightarrow> RawExtension option) \<Rightarrow> bool \<Rightarrow> string list \<Rightarrow> go_error + string"
where
  "params_entries L params first [] = Inr []"
| "params_entries L params first (k # keys) =
     bind_result (MarshalString L k) (\<lambda>kb.
     bind_result (params_entries L params False keys) (\<lambda>rest.
       let raw = (case params k of None \<Rightarrow> [] | Some r \<Rightarrow> Raw r)
       in Inr ((if first then [] else '','') @ kb @ '':'' @ (if raw \<noteq> [] then raw else ''{}'') @ rest)))"

definition params_map :: "KCLInput \<Rightarrow> RawExtension gomap" where
  "params_map i = (case Params (Spec i) of None \<Rightarrow> [] | Some m \<Rightarrow> m)"

definition paramsJSON :: "'n kcl_lib \<Rightarrow> KCLInput \<Rightarrow> go_error + string" where
  "paramsJSON L i =
     bind_result (params_entries L (map_of (params_map i)) True (sort (map fst (params_map i))))
       (\<lambda>b. Inr (''{'' @ b @ ''}''))"

definition env_map :: "string list \<Rightarrow> string gomap" where
  "env_map environ =
     fold (\<lambda>e m. case split_first (CHR ''='') e of None \<Rightarrow> m | Some (k, v) \<Rightarrow> AList.update k v m)
       environ []"

definition envJSON :: "'n kcl_lib \<Rightarrow> go_error + string" where
  "envJSON L = MarshalMap L (env_map (Environ L))"

definition resource_list :: "string \<Rightarrow> string" where
  "resource_list fc =
     ''{\"apiVersion\":\"config.kubernetes.io/v1\",\"kind\":\"ResourceList\",\"items\":[],\"functionConfig\":'' @
     fc @ ''}''"

definition kclArguments :: "'n kcl_lib \<Rightarrow> KCLInput \<Rightarrow> go_error + string list" where
  "kclArguments L i =
     bind_result (MarshalInput L i) (\<lambda>fc.
     bind_result (paramsJSON L i) (\<lambda>params.
     bind_result (envJSON L) (\<lambda>env.
       Inr [''resource_list='' @ resource_list fc, ''items=[]'', ''params='' @ params,
            ''PATH='' @ GetenvPATH L, ''env='' @ env])))"

section \<open>The inline path\<close>

definition dependency_list :: "'n kcl_lib \<Rightarrow> KCLInput \<Rightarrow> go_error + string list" where
  "dependency_list L i =
     (if Dependencies (Spec i) \<noteq> [] then
        (case NewKpmClient L of
           Some err \<Rightarrow> Inl err
         | None \<Rightarrow> LoadDepListFromConfig L (Dependencies (Spec i)))
      else Inr [])"

definition inline_options :: "KCLInput \<Rightarrow> string list \<Rightarrow> string list \<Rightarrow> kcl_options" where
  "inline_options i dependencies args =
     \<lparr>WithCode = Source (Spec i), WithOptions = args, WithExternalPkgs = dependencies,
      WithSettings = Settings (Config (Spec i)), opt_Overrides = Overrides (Config (Spec i)),
      opt_PathSelector = PathSelectors (Config (Spec i)),
      opt_DisableNone = DisableNone (Config (Spec i)),
      opt_Debug = boolToInt32 (Debug (Config (Spec i))), opt_SortKeys = SortKeys (Config (Spec i)),
      opt_ShowHidden = ShowHidden (Config (Spec i)),
      opt_StrictRangeCheck = StrictRangeCheck (Config (Spec i))\<rparr>"

definition vendor_run_options ::
  "KCLInput \<Rightarrow> string \<Rightarrow> string list \<Rightarrow> string list \<Rightarrow> vendor_options"
where
  "vendor_run_options i prog dependencies args =
     \<lparr>NoStyle = True, Entries = [prog], vo_Arguments = args @ Arguments (Config (Spec i)),
      ExternalPackages = dependencies, vo_Debug = Debug (Config (Spec i)),
      vo_DisableNone = DisableNone (Config (Spec i)), vo_Overrides = Overrides (Config (Spec i)),
      vo_PathSelectors = PathSelectors (Config (Spec i)), vo_Settings = Settings (Config (Spec i)),
      vo_ShowHidden = ShowHidden (Config (Spec i)), vo_SortKeys = SortKeys (Config (Spec i)),
      vo_StrictRangeCheck = StrictRangeCheck (Config (Spec i)), vo_Vendor = Vendor (Config (Spec i))\<rparr>"

definition renderInlineVendor ::
  "'n kcl_lib \<Rightarrow> KCLInput \<Rightarrow> string list \<Rightarrow> string list \<Rightarrow> go_error + string"
where
  "renderInlineVendor L i dependencies args =
     bind_result (MkdirTemp L) (\<lambda>dir.
       let prog = dir @ ''/prog.k''
       in case WriteFile L prog (Source (Spec i)) of
            Some err \<Rightarrow> Inl err
          | None \<Rightarrow> RunVendor L (Source (Spec i)) (vendor_run_options i prog dependencies args))"

text \<open>\<open>Inr None\<close> says that the inline path does not handle the input.\<close>

definition renderInline :: "'n kcl_lib \<Rightarrow> KCLInput \<Rightarrow> go_error + string option" where
  "renderInline L i =
     (if \<not> isInlineSource L (Source (Spec i)) then Inr None
      else
        bind_result (dependency_list L i) (\<lambda>dependencies.
        bind_result (kclArguments L i) (\<lambda>args.
        bind_result
          (if \<not> Vendor (Config (Spec i)) then
             Run L ''prog.k'' (inline_options i dependencies args)
           else renderInlineVendor L i dependencies args) (\<lambda>buf.
        bind_result (ReadNodes L buf) (\<lambda>nodes.
        bind_result (UnwrapResources L nodes) (\<lambda>items.
        bind_result (WriteNodes L items) (\<lambda>res. Inr (Some res))))))))"

section \<open>What the parameters look like\<close>

fun comma_join :: "string list \<Rightarrow> string" where
  "comma_join [] = []"
| "comma_join [x] = x"
| "comma_join (x # y # xs) = x @ '','' @ comma_join (y # xs)"

lemma comma_join_Cons:
  "comma_join (x # xs) = x @ (if xs = [] then [] else '','' @ comma_join xs)"
  by (cases xs) simp_all

definition param_text :: "(string \<Rightarrow> string) \<Rightarrow> (string \<rightharpoonup> RawExtension) \<Rightarrow> string \<Rightarrow> string" where
  "param_text json params k =
     json k @ '':'' @ (case params k of
       None \<Rightarrow> ''{}'' | Some r \<Rightarrow> if Raw r = [] then ''{}'' else Raw r)"

lemma params_entries_result:
  assumes "\<And>k. k \<in> set keys \<Longrightarrow> MarshalString L k = Inr (json k)"
  shows "params_entries L params first keys =
    Inr ((if first \<or> keys = [] then [] else '','') @ comma_join (map (param_text json params) keys))"
  using assms
proof (induction keys arbitrary: first)
  case (Cons k keys)
  have "params_entries L params first (k # keys) =
      bind_result (params_entries L params False keys)
        (\<lambda>rest. Inr ((if first then [] else '','') @ param_text json params k @ rest))"
    using Cons.prems [of k] by (auto simp: param_text_def Let_def split: option.split)
  moreover have "params_entries L params False keys =
      Inr ((if keys = [] then [] else '','') @ comma_join (map (param_text json params) keys))"
    using Cons.IH [of False] Cons.prems by simp
  ultimately show ?case by (simp add: comma_join_Cons)
qed simp

lemma sorted_keys_eq:
  assumes "wf_gomap m" and "wf_gomap m'" and "map_of m = map_of m'"
  shows "sort (map fst m) = sort (map fst m' :: string list)"
proof -
  have "set (map fst m) = set (map fst m')"
    using assms(3) by (metis dom_map_of_conv_image_fst set_map)
  then have "set (sort (map fst m)) = set (sort (map fst m'))" by simp
  moreover have "distinct (sort (map fst m))" "distinct (sort (map fst m'))"
    using assms(1,2) by (simp_all add: wf_gomap_def)
  ultimately show ?thesis by (intro sorted_distinct_set_unique) simp_all
qed

lemma inline_options_ignore_arguments:
  "inline_options (i\<lparr>Spec := (Spec i)\<lparr>Config := (Config (Spec i))\<lparr>Arguments := a\<rparr>\<rparr>\<rparr>) deps args =
   inline_options i deps args"
  by (simp add: inline_options_def)

section \<open>Properties\<close>

text \<open>C34: the text of the parameters is the JSON object of all parameters in ascending key order,
  each with its raw JSON or \<open>{}\<close>; so it depends on the parameters only, not on the order in which
  the map is visited, which the render cache relies on.\<close>

theorem paramsJSON_correct:
  assumes "\<And>k. k \<in> fst ` set (params_map i) \<Longrightarrow> MarshalString L k = Inr (json k)"
    and "wf_gomap (params_map i)" and "wf_gomap (params_map i')"
    and "map_of (params_map i) = map_of (params_map i')"
  shows "paramsJSON L i = Inr (''{'' @ comma_join (map (param_text json (map_of (params_map i)))
      (sort (map fst (params_map i)))) @ ''}'') \<and>
    paramsJSON L i' = paramsJSON L i \<and>
    sorted (sort (map fst (params_map i))) \<and>
    set (sort (map fst (params_map i))) = dom (map_of (params_map i))"
proof -
  let ?keys = "sort (map fst (params_map i))"
  have "params_entries L (map_of (params_map i)) True ?keys =
      Inr (comma_join (map (param_text json (map_of (params_map i))) ?keys))"
    using assms(1) by (subst params_entries_result [where json = json]) auto
  moreover have "paramsJSON L i' = paramsJSON L i"
    using sorted_keys_eq [OF assms(2-4)] assms(4) by (simp add: paramsJSON_def)
  ultimately show ?thesis by (simp add: paramsJSON_def dom_map_of_conv_image_fst)
qed

definition example_input_with :: "RawExtension gomap \<Rightarrow> KCLInput" where
  "example_input_with params =
     (example_input Default [])\<lparr>Spec := (Spec (example_input Default []))\<lparr>Params := Some params\<rparr>\<rparr>"

text \<open>A library whose KCL copies its program, for inputs without colon.\<close>

definition example_lib :: "string kcl_lib" where
  "example_lib =
     \<lparr>IsOCI = (\<lambda>s. has_prefix s ''oci://''), IsLocal = (\<lambda>_. False), IsRemoteUrl = (\<lambda>_. False),
      IsGit = (\<lambda>_. False), IsVCSDomain = (\<lambda>_. False), NewKpmClient = None,
      LoadDepListFromConfig = (\<lambda>_. Inr []), MarshalInput = (\<lambda>i. Inr (Source (Spec i))),
      MarshalString = (\<lambda>k. Inr (''\"'' @ k @ ''\"'')), MarshalMap = (\<lambda>_. Inr ''{}''),
      Environ = [], GetenvPATH = [], MkdirTemp = Inr ''/tmp'', WriteFile = (\<lambda>_ _. None),
      Run = (\<lambda>_ opts. Inr (WithCode opts)), RunVendor = (\<lambda>prog _. Inr prog),
      ReadNodes = Inr, UnwrapResources = Inr, WriteNodes = Inr, KCLRunAPIVersion = ''krm'', KCLRunKind = ''KCLRun'', MarshalYaml = (\<lambda>i. Inr (Source (Spec i))), PipelineExecute = Inr\<rparr>"

theorem paramsJSON_correct_witness:
  "paramsJSON example_lib (example_input_with [(''b'', \<lparr>Raw = ''1''\<rparr>), (''a'', \<lparr>Raw = []\<rparr>)]) =
   paramsJSON example_lib (example_input_with [(''a'', \<lparr>Raw = []\<rparr>), (''b'', \<lparr>Raw = ''1''\<rparr>)])"
  using paramsJSON_correct [of "example_input_with [(''a'', \<lparr>Raw = []\<rparr>), (''b'', \<lparr>Raw = ''1''\<rparr>)]"
      example_lib "\<lambda>k. ''\"'' @ k @ ''\"''"
      "example_input_with [(''b'', \<lparr>Raw = ''1''\<rparr>), (''a'', \<lparr>Raw = []\<rparr>)]"]
  by (auto simp: example_lib_def example_input_with_def params_map_def fun_eq_iff)

end
