(* ===== verification/Render_Cache.thy ===== *)
theory Render_Cache
  imports Prelude "HOL-Library.Word"
begin

text \<open>
  \<open>rendercache.go\<close>: the render cache over an explicit store of list elements (the code mutates
  the elements it shares between the list and the map), its refinement to a plain list of entries
  in order of use, and the contract \<open>memo_cache\<close> that makes memoising invisible. SHA-256 is the
  parameter \<open>hash\<close>; times and durations are nanoseconds.
\<close>

section \<open>The cache\<close>

record renderCacheEntry =
  ent_key :: string
  ent_value :: string
  stored :: int

text \<open>
  \<open>ll\<close> holds the list elements by address, front first; \<open>items\<close> maps keys to addresses; \<open>heap\<close>
  gives the entry at an address and \<open>fresh\<close> is the next address \<open>PushFront\<close> will use.
\<close>

record renderCache =
  rc_max :: int
  ttl :: int
  ll :: "nat list"
  items :: "string \<rightharpoonup> nat"
  heap :: "nat \<Rightarrow> renderCacheEntry"
  fresh :: nat
  hits :: "64 word"
  misses :: "64 word"

definition newRenderCache :: "int \<Rightarrow> int \<Rightarrow> renderCache option" where
  "newRenderCache n lifetime =
     (if n \<le> 0 then None
      else Some \<lparr>rc_max = n, ttl = lifetime, ll = [], items = Map.empty,
        heap = (\<lambda>_. \<lparr>ent_key = [], ent_value = [], stored = 0\<rparr>), fresh = 0, hits = 0, misses = 0\<rparr>)"

definition cache_enabled :: "renderCache option \<Rightarrow> bool" where
  "cache_enabled c \<longleftrightarrow> c \<noteq> None"

text \<open>\<open>time.Time.Sub\<close> saturates.\<close>

definition time_sub :: "int \<Rightarrow> int \<Rightarrow> int" where
  "time_sub a b = max (- (2 ^ 63)) (min (2 ^ 63 - 1) (a - b))"

definition move_to_front :: "nat \<Rightarrow> nat list \<Rightarrow> nat list" where
  "move_to_front el l = (if el \<in> set l then el # remove1 el l else l)"

definition expired :: "int \<Rightarrow> int \<Rightarrow> int \<Rightarrow> bool" where
  "expired lifetime now t \<longleftrightarrow> lifetime > 0 \<and> time_sub now t \<ge> lifetime"

definition lookup ::
  "(string \<Rightarrow> string) \<Rightarrow> int \<Rightarrow> renderCache option \<Rightarrow> string \<Rightarrow> string option \<times> renderCache option"
where
  "lookup hash now cache input =
     (case cache of
        None \<Rightarrow> (None, None)
      | Some c \<Rightarrow>
          (let k = hash input
           in case items c k of
                None \<Rightarrow> (None, Some (c\<lparr>misses := misses c + 1\<rparr>))
              | Some el \<Rightarrow>
                  if expired (ttl c) now (stored (heap c el)) then
                    (None, Some (c\<lparr>ll := remove1 el (ll c), items := (items c)(k := None),
                                   misses := misses c + 1\<rparr>))
                  else
                    (Some (ent_value (heap c el)),
                     Some (c\<lparr>ll := move_to_front el (ll c), hits := hits c + 1\<rparr>))))"

function evict :: "renderCache \<Rightarrow> renderCache" where
  "evict c =
     (if int (length (ll c)) > rc_max c \<and> ll c \<noteq> [] then
        evict (c\<lparr>ll := butlast (ll c), items := (items c)(ent_key (heap c (last (ll c))) := None)\<rparr>)
      else c)"
  by auto
termination by (relation "measure (\<lambda>c. length (ll c))") auto

declare evict.simps [simp del]

definition store ::
  "(string \<Rightarrow> string) \<Rightarrow> int \<Rightarrow> renderCache option \<Rightarrow> string \<Rightarrow> string \<Rightarrow> renderCache option"
where
  "store hash now cache input output =
     (case cache of
        None \<Rightarrow> None
      | Some c \<Rightarrow>
          (let k = hash input; ent = \<lparr>ent_key = k, ent_value = output, stored = now\<rparr>
           in case items c k of
                Some el \<Rightarrow>
                  Some (c\<lparr>heap := (heap c)(el := (heap c el)\<lparr>ent_value := output, stored := now\<rparr>),
                          ll := move_to_front el (ll c)\<rparr>)
              | None \<Rightarrow>
                  Some (evict (c\<lparr>heap := (heap c)(fresh c := ent), ll := fresh c # ll c,
                                 items := (items c)(k \<mapsto> fresh c), fresh := fresh c + 1\<rparr>))))"

definition stats :: "renderCache option \<Rightarrow> 64 word \<times> 64 word" where
  "stats cache = (case cache of None \<Rightarrow> (0, 0) | Some c \<Rightarrow> (hits c, misses c))"

section \<open>The invariant\<close>

definition wf_cache :: "renderCache \<Rightarrow> bool" where
  "wf_cache c \<longleftrightarrow>
     distinct (ll c) \<and> (\<forall>el \<in> set (ll c). el < fresh c) \<and>
     (\<forall>k el. items c k = Some el \<longleftrightarrow> el \<in> set (ll c) \<and> ent_key (heap c el) = k) \<and>
     0 < rc_max c \<and> int (length (ll c)) \<le> rc_max c"

lemma wf_cacheD:
  assumes "wf_cache c"
  shows "distinct (ll c)" and "el \<in> set (ll c) \<Longrightarrow> el < fresh c"
    and "items c k = Some el \<longleftrightarrow> el \<in> set (ll c) \<and> ent_key (heap c el) = k"
    and "0 < rc_max c" and "int (length (ll c)) \<le> rc_max c"
  using assms by (auto simp: wf_cache_def)

lemma wf_cache_new: "newRenderCache n t = Some c \<Longrightarrow> wf_cache c"
  by (auto simp: newRenderCache_def wf_cache_def split: if_splits)

text \<open>The entries in order of use: what the cache stands for.\<close>

definition entries :: "renderCache \<Rightarrow> renderCacheEntry list" where
  "entries c = map (heap c) (ll c)"

definition others :: "string \<Rightarrow> renderCacheEntry list \<Rightarrow> renderCacheEntry list" where
  "others k es = filter (\<lambda>e. ent_key e \<noteq> k) es"

lemma entries_keys_distinct:
  assumes "wf_cache c"
  shows "distinct (map ent_key (entries c))"
proof -
  have "inj_on (\<lambda>el. ent_key (heap c el)) (set (ll c))"
    using wf_cacheD(3) [OF assms] by (auto simp: inj_on_def) (metis option.inject)
  then show ?thesis
    using wf_cacheD(1) [OF assms] by (simp add: entries_def distinct_map comp_def)
qed

lemma find_entry:
  assumes "wf_cache c"
  shows "find (\<lambda>e. ent_key e = k) (entries c) = map_option (heap c) (items c k)"
proof (cases "items c k")
  case None
  then have "ent_key (heap c el) \<noteq> k" if "el \<in> set (ll c)" for el
    using wf_cacheD(3) [OF assms, of k el] that by auto
  with None show ?thesis by (auto simp: entries_def find_None_iff)
next
  case (Some el)
  with wf_cacheD(3) [OF assms, of k el] have el: "heap c el \<in> set (entries c)" "ent_key (heap c el) = k"
    by (auto simp: entries_def)
  from find_distinct [OF entries_keys_distinct [OF assms] el] Some show ?thesis by simp
qed

lemma remove_entry:
  assumes "wf_cache c" and "items c k = Some el"
  shows "map (heap c) (remove1 el (ll c)) = others k (entries c)"
proof -
  have "remove1 el (ll c) = filter (\<lambda>x. x \<noteq> el) (ll c)"
    using wf_cacheD(1) [OF assms(1)] by (rule distinct_remove1_removeAll [THEN trans])
       (simp add: removeAll_filter_not_eq eq_commute)
  also have "\<dots> = filter (\<lambda>x. ent_key (heap c x) \<noteq> k) (ll c)"
    using wf_cacheD(3) [OF assms(1), of k el] wf_cacheD(3) [OF assms(1), of k] assms(2)
    by (intro filter_cong refl) (metis option.inject)
  finally show ?thesis by (simp add: others_def entries_def filter_map comp_def)
qed

section \<open>The list of entries in order of use as a specification\<close>

definition lookup_spec ::
  "int \<Rightarrow> int \<Rightarrow> renderCacheEntry list \<Rightarrow> string \<Rightarrow> string option \<times> renderCacheEntry list"
where
  "lookup_spec lifetime now es k =
     (case find (\<lambda>e. ent_key e = k) es of
        None \<Rightarrow> (None, es)
      | Some e \<Rightarrow>
          if expired lifetime now (stored e) then (None, others k es)
          else (Some (ent_value e), e # others k es))"

definition store_spec ::
  "int \<Rightarrow> int \<Rightarrow> renderCacheEntry list \<Rightarrow> string \<Rightarrow> string \<Rightarrow> renderCacheEntry list"
where
  "store_spec capacity now es k v =
     take (nat capacity) (\<lparr>ent_key = k, ent_value = v, stored = now\<rparr> # others k es)"

lemma move_to_front_entries:
  assumes "wf_cache c" and "items c k = Some el"
  shows "map (heap c) (move_to_front el (ll c)) = heap c el # others k (entries c)"
    and "set (move_to_front el (ll c)) = set (ll c)" and "distinct (move_to_front el (ll c))"
    and "length (move_to_front el (ll c)) = length (ll c)"
proof -
  have el: "el \<in> set (ll c)" using wf_cacheD(3) [OF assms(1)] assms(2) by blast
  with wf_cacheD(1) [OF assms(1)] remove_entry [OF assms]
  show "map (heap c) (move_to_front el (ll c)) = heap c el # others k (entries c)"
    and "set (move_to_front el (ll c)) = set (ll c)" and "distinct (move_to_front el (ll c))"
    by (auto simp: move_to_front_def)
  show "length (move_to_front el (ll c)) = length (ll c)"
    using el by (simp add: move_to_front_def length_remove1) (metis Suc_pred length_pos_if_in_set)
qed

lemma lookup_refines:
  assumes "wf_cache c" and "lookup hash now (Some c) input = (r, Some c')"
  shows "wf_cache c'" and "rc_max c' = rc_max c" and "ttl c' = ttl c"
    and "(r, entries c') = lookup_spec (ttl c) now (entries c) (hash input)"
proof -
  let ?k = "hash input"
  have "wf_cache c' \<and> rc_max c' = rc_max c \<and> ttl c' = ttl c \<and>
    (r, entries c') = lookup_spec (ttl c) now (entries c) ?k"
  proof (cases "items c ?k")
    case None
    then have c': "c' = c\<lparr>misses := misses c + 1\<rparr>" and r: "r = None"
      using assms(2) by (auto simp: lookup_def)
    then have "wf_cache c'" and "entries c' = entries c"
      using assms(1) by (simp_all add: wf_cache_def entries_def)
    with None show ?thesis by (simp add: lookup_spec_def find_entry [OF assms(1)] r c')
  next
    case (Some el)
    note front = move_to_front_entries [OF assms(1) Some]
    have el: "el \<in> set (ll c)" "ent_key (heap c el) = ?k"
      using wf_cacheD(3) [OF assms(1), of ?k el] Some by auto
    show ?thesis
    proof (cases "expired (ttl c) now (stored (heap c el))")
      case True
      then have c': "c' = c\<lparr>ll := remove1 el (ll c), items := (items c)(?k := None), misses := misses c + 1\<rparr>"
        and r: "r = None"
        using assms(2) Some by (auto simp: lookup_def)
      have "items c' k = Some x \<longleftrightarrow> x \<in> set (ll c') \<and> ent_key (heap c' x) = k" for k x
        using wf_cacheD(3) [OF assms(1), of k x] wf_cacheD(3) [OF assms(1), of ?k x]
          wf_cacheD(1) [OF assms(1)] Some el by (auto simp: c')
      then have "wf_cache c'"
        using assms(1) by (auto simp: wf_cache_def c' length_remove1 dest: subsetD [OF set_remove1_subset])
      moreover have "entries c' = others ?k (entries c)"
        using remove_entry [OF assms(1) Some] by (simp add: c' entries_def)
      ultimately show ?thesis
        using True Some by (simp add: lookup_spec_def find_entry [OF assms(1)] r c')
    next
      case False
      then have c': "c' = c\<lparr>ll := move_to_front el (ll c), hits := hits c + 1\<rparr>"
        and r: "r = Some (ent_value (heap c el))"
        using assms(2) Some by (auto simp: lookup_def)
      have "wf_cache c'" using assms(1) front(2-4) by (simp add: wf_cache_def c')
      moreover have "entries c' = heap c el # others ?k (entries c)"
        using front(1) by (simp add: c' entries_def)
      ultimately show ?thesis
        using False Some by (simp add: lookup_spec_def find_entry [OF assms(1)] r c')
    qed
  qed
  then show "wf_cache c'" and "rc_max c' = rc_max c" and "ttl c' = ttl c"
    and "(r, entries c') = lookup_spec (ttl c) now (entries c) ?k" by auto
qed

lemma others_absent: "k \<notin> ent_key ` set es \<Longrightarrow> others k es = es"
  by (auto simp: others_def intro!: filter_True)

definition pushed :: "renderCache \<Rightarrow> renderCacheEntry \<Rightarrow> renderCache" where
  "pushed c ent = c\<lparr>heap := (heap c)(fresh c := ent), ll := fresh c # ll c,
     items := (items c)(ent_key ent \<mapsto> fresh c), fresh := fresh c + 1\<rparr>"

lemma pushed_entries:
  assumes "wf_cache c" and "items c (ent_key ent) = None"
  shows "entries (pushed c ent) = ent # entries c" and "distinct (ll (pushed c ent))"
    and "\<forall>el \<in> set (ll (pushed c ent)). el < fresh (pushed c ent)"
    and "items (pushed c ent) k = Some el \<longleftrightarrow>
      el \<in> set (ll (pushed c ent)) \<and> ent_key (heap (pushed c ent) el) = k"
proof -
  have new: "fresh c \<notin> set (ll c)" using wf_cacheD(2) [OF assms(1)] by blast
  then show "entries (pushed c ent) = ent # entries c" and "distinct (ll (pushed c ent))"
    using wf_cacheD(1) [OF assms(1)] by (auto simp: pushed_def entries_def)
  show "\<forall>el \<in> set (ll (pushed c ent)). el < fresh (pushed c ent)"
    using wf_cacheD(2) [OF assms(1)] by (auto simp: pushed_def less_SucI)
  show "items (pushed c ent) k = Some el \<longleftrightarrow>
      el \<in> set (ll (pushed c ent)) \<and> ent_key (heap (pushed c ent) el) = k"
    using new wf_cacheD(3) [OF assms(1), of k el] wf_cacheD(3) [OF assms(1), of "ent_key ent" el]
      assms(2) by (auto simp: pushed_def)
qed

text \<open>Eviction drops at most the last entry: the list is never longer than one over its limit.\<close>

lemma evict_full:
  assumes "int (length (ll c)) = rc_max c + 1" and "0 < rc_max c"
  shows "evict c = c\<lparr>ll := butlast (ll c), items := (items c)(ent_key (heap c (last (ll c))) := None)\<rparr>"
proof -
  have "ll c \<noteq> []" using assms by auto
  then have "evict c =
      evict (c\<lparr>ll := butlast (ll c), items := (items c)(ent_key (heap c (last (ll c))) := None)\<rparr>)"
    using assms(1) by (subst evict.simps) simp
  then show ?thesis using assms by (simp add: evict.simps [of "c\<lparr>ll := _, items := _\<rparr>"])
qed

lemma evict_room: "int (length (ll c)) \<le> rc_max c \<Longrightarrow> evict c = c"
  by (simp add: evict.simps)

lemma last_split:
  "distinct l \<Longrightarrow> l \<noteq> [] \<Longrightarrow>
   last l \<notin> set (butlast l) \<and> set l = insert (last l) (set (butlast l))"
  by (cases l rule: rev_cases) auto

lemma store_new:
  assumes "wf_cache c" and "items c (ent_key ent) = None"
  shows "wf_cache (evict (pushed c ent))"
    and "entries (evict (pushed c ent)) = take (nat (rc_max c)) (ent # entries c)"
    and "rc_max (evict (pushed c ent)) = rc_max c" and "ttl (evict (pushed c ent)) = ttl c"
proof -
  let ?c = "pushed c ent"
  note p = pushed_entries [OF assms]
  have max: "rc_max ?c = rc_max c" "ttl ?c = ttl c" "length (ll ?c) = Suc (length (ll c))"
    by (simp_all add: pushed_def)
  have "wf_cache (evict ?c) \<and> entries (evict ?c) = take (nat (rc_max c)) (ent # entries c) \<and>
    rc_max (evict ?c) = rc_max c \<and> ttl (evict ?c) = ttl c"
  proof (cases "int (length (ll c)) < rc_max c")
    case True
    then have "evict ?c = ?c" using max by (intro evict_room) simp
    moreover have "wf_cache ?c" unfolding wf_cache_def using p max True by auto
    moreover have "take (nat (rc_max c)) (ent # entries c) = ent # entries c"
      using True by (simp add: entries_def)
    ultimately show ?thesis using p(1) max by simp
  next
    case False
    with wf_cacheD(5) [OF assms(1)] have len: "int (length (ll c)) = rc_max c" by simp
    then have e: "evict ?c = ?c\<lparr>ll := butlast (ll ?c),
        items := (items ?c)(ent_key (heap ?c (last (ll ?c))) := None)\<rparr>"
      using max wf_cacheD(4) [OF assms(1)] by (intro evict_full) simp_all
    have last: "last (ll ?c) \<notin> set (butlast (ll ?c))"
      "set (ll ?c) = insert (last (ll ?c)) (set (butlast (ll ?c)))"
      using last_split [OF p(2)] max(3) by (simp_all flip: length_0_conv del: length_0_conv)
    have "items (evict ?c) k = Some el \<longleftrightarrow> el \<in> set (ll (evict ?c)) \<and> ent_key (heap (evict ?c) el) = k" for k el
    proof (cases "k = ent_key (heap ?c (last (ll ?c)))")
      case True
      have "items ?c k = Some (last (ll ?c))" using p(4) [of k "last (ll ?c)"] last(2) True by simp
      with p(4) [of k el] last True show ?thesis by (auto simp: e)
    next
      case False
      have "items (evict ?c) k = items ?c k" using False by (simp add: e)
      moreover have "el \<noteq> last (ll ?c)" if "ent_key (heap ?c el) = k" using that False by auto
      ultimately show ?thesis using p(4) [of k el] last(2) by (auto simp: e)
    qed
    moreover have "\<forall>el \<in> set (ll (evict ?c)). el < fresh (evict ?c)"
      using p(3) by (auto simp: e dest: in_set_butlastD)
    ultimately have "wf_cache (evict ?c)"
      using p(2) max len wf_cacheD(4) [OF assms(1)] by (simp add: wf_cache_def e distinct_butlast)
    moreover have "entries (evict ?c) = butlast (entries ?c)"
      by (simp add: entries_def e map_butlast)
    moreover have "butlast (ent # entries c) = take (nat (rc_max c)) (ent # entries c)"
      using len by (simp add: butlast_conv_take entries_def flip: len)
    ultimately show ?thesis using p(1) max e by simp
  qed
  then show "wf_cache (evict ?c)" and "entries (evict ?c) = take (nat (rc_max c)) (ent # entries c)"
    and "rc_max (evict ?c) = rc_max c" and "ttl (evict ?c) = ttl c" by auto
qed

lemma store_refines:
  assumes "wf_cache c" and "store hash now (Some c) input output = Some c'"
  shows "wf_cache c'" and "rc_max c' = rc_max c" and "ttl c' = ttl c"
    and "entries c' = store_spec (rc_max c) now (entries c) (hash input) output"
proof -
  let ?k = "hash input" and ?ent = "\<lparr>ent_key = hash input, ent_value = output, stored = now\<rparr>"
  have "wf_cache c' \<and> rc_max c' = rc_max c \<and> ttl c' = ttl c \<and>
    entries c' = store_spec (rc_max c) now (entries c) ?k output"
  proof (cases "items c ?k")
    case None
    then have c': "c' = evict (pushed c ?ent)" using assms(2) by (simp add: store_def pushed_def Let_def)
    have "others ?k (entries c) = entries c"
      using find_entry [OF assms(1), of ?k] None by (intro others_absent) (auto simp: find_None_iff)
    with store_new [OF assms(1), of ?ent] None c' show ?thesis by (simp add: store_spec_def)
  next
    case (Some el)
    note front = move_to_front_entries [OF assms(1) Some]
    have el: "el \<in> set (ll c)" "ent_key (heap c el) = ?k"
      using wf_cacheD(3) [OF assms(1), of ?k el] Some by auto
    from assms(2) Some have c': "c' = c\<lparr>heap := (heap c)(el := (heap c el)\<lparr>ent_value := output, stored := now\<rparr>),
        ll := move_to_front el (ll c)\<rparr>"
      by (simp add: store_def)
    have ent: "(heap c el)\<lparr>ent_value := output, stored := now\<rparr> = ?ent" using el(2) by simp
    have keys: "ent_key (heap c' x) = ent_key (heap c x)" for x by (simp add: c')
    have "wf_cache c'"
      using assms(1) front(2-4) keys by (simp add: wf_cache_def) (simp add: c')
    moreover have "entries c' = ?ent # others ?k (entries c)"
    proof -
      have mtf: "move_to_front el (ll c) = el # remove1 el (ll c)"
        using el(1) by (simp add: move_to_front_def)
      have "map (heap c') (remove1 el (ll c)) = map (heap c) (remove1 el (ll c))"
        using wf_cacheD(1) [OF assms(1)] by (intro map_cong) (auto simp: c')
      with remove_entry [OF assms(1) Some] ent mtf show ?thesis by (simp add: c' entries_def)
    qed
    moreover have "length (?ent # others ?k (entries c)) \<le> nat (rc_max c)"
      using arg_cong [OF front(1), of length] front(4) wf_cacheD(5) [OF assms(1)] by simp
    ultimately show ?thesis by (simp add: store_spec_def c')
  qed
  then show "wf_cache c'" and "rc_max c' = rc_max c" and "ttl c' = ttl c"
    and "entries c' = store_spec (rc_max c) now (entries c) ?k output" by auto
qed

section \<open>Memoising\<close>

text \<open>
  What a caller needs of a cache: if all it holds are results of \<open>f\<close>, what it returns is the result
  of \<open>f\<close>, and both operations keep it so. Then looking up first, computing and storing only after a
  miss, always returns what computing returns, over any number of calls.
\<close>

locale memo_cache =
  fixes look :: "'t \<Rightarrow> 'c \<Rightarrow> 'i \<Rightarrow> 'v option \<times> 'c"
    and put :: "'t \<Rightarrow> 'c \<Rightarrow> 'i \<Rightarrow> 'v \<Rightarrow> 'c"
    and sound :: "('i \<Rightarrow> 'e + 'v) \<Rightarrow> 'c \<Rightarrow> bool"
    and known :: "'i set"
  assumes look_sound: "sound f c \<Longrightarrow> i \<in> known \<Longrightarrow> look t c i = (Some v, c') \<Longrightarrow> f i = Inr v"
    and look_keeps: "sound f c \<Longrightarrow> look t c i = (r, c') \<Longrightarrow> sound f c'"
    and put_keeps: "sound f c \<Longrightarrow> i \<in> known \<Longrightarrow> f i = Inr v \<Longrightarrow> sound f (put t c i v)"
begin

definition memo :: "('i \<Rightarrow> 'e + 'v) \<Rightarrow> 't \<times> 't \<Rightarrow> 'c \<Rightarrow> 'i \<Rightarrow> ('e + 'v) \<times> 'c" where
  "memo f t c i =
     (case look (fst t) c i of
        (Some v, c') \<Rightarrow> (Inr v, c')
      | (None, c') \<Rightarrow> (case f i of Inl e \<Rightarrow> (Inl e, c') | Inr v \<Rightarrow> (Inr v, put (snd t) c' i v)))"

lemma memo_transparent:
  assumes "sound f c" and "i \<in> known" and "memo f t c i = (r, c')"
  shows "r = f i \<and> sound f c'"
proof -
  obtain lr c1 where l: "look (fst t) c i = (lr, c1)" by fastforce
  have "sound f c1" using assms(1) l by (rule look_keeps)
  with l assms show ?thesis
    by (auto simp: memo_def look_sound put_keeps split: option.splits sum.splits)
qed

primrec memo_all :: "('i \<Rightarrow> 'e + 'v) \<Rightarrow> 'c \<Rightarrow> (('t \<times> 't) \<times> 'i) list \<Rightarrow> ('e + 'v) list" where
  "memo_all f c [] = []"
| "memo_all f c (q # qs) =
     (case memo f (fst q) c (snd q) of (r, c') \<Rightarrow> r # memo_all f c' qs)"

lemma memo_all_transparent:
  "sound f c \<Longrightarrow> snd ` set qs \<subseteq> known \<Longrightarrow> memo_all f c qs = map (\<lambda>q. f (snd q)) qs"
proof (induction qs arbitrary: c)
  case (Cons q qs)
  obtain r c' where "memo f (fst q) c (snd q) = (r, c')" by fastforce
  with memo_transparent [of f c "snd q" "fst q" r c'] Cons show ?case by simp
qed simp

end

text \<open>The render cache is such a cache when the hash has no collision among the inputs.\<close>

definition holds_only :: "(string \<Rightarrow> string) \<Rightarrow> string set \<Rightarrow> (string \<Rightarrow> 'e + string) \<Rightarrow>
  renderCache option \<Rightarrow> bool"
where
  "holds_only hash known f cache \<longleftrightarrow>
     (case cache of
        None \<Rightarrow> True
      | Some c \<Rightarrow> inj_on hash known \<and> wf_cache c \<and>
          (\<forall>e \<in> set (entries c). \<forall>i \<in> known. ent_key e = hash i \<longrightarrow> f i = Inr (ent_value e)))"

lemma lookup_None [simp]: "lookup hash t None i = (None, None)"
  by (simp add: lookup_def)

lemma store_None [simp]: "store hash t None i v = None"
  by (simp add: store_def)

lemma lookup_Some: "\<exists>r c'. lookup hash t (Some c) i = (r, Some c')"
  by (auto simp: lookup_def Let_def split: option.split)

lemma store_Some: "\<exists>c'. store hash t (Some c) i v = Some c'"
  by (auto simp: store_def Let_def split: option.split)

lemma lookup_spec_sound:
  assumes "lookup_spec lifetime t es k = (r, es')"
  shows "set es' \<subseteq> set es" and "r = Some v \<Longrightarrow> \<exists>e \<in> set es. ent_key e = k \<and> ent_value e = v"
  using assms
  by (auto simp: lookup_spec_def others_def find_Some_iff split: option.splits if_splits)

lemma store_spec_sound:
  "e \<in> set (store_spec n t es k v) \<Longrightarrow> e = \<lparr>ent_key = k, ent_value = v, stored = t\<rparr> \<or> e \<in> set (others k es)"
  by (auto simp: store_spec_def dest!: in_set_takeD)

interpretation render_cache: memo_cache "lookup hash" "store hash" "holds_only hash known" known
  for hash known
proof unfold_locales
  fix f :: "string \<Rightarrow> 'e + string" and cache cache' t i r v
  assume h: "holds_only hash known f cache"
  show "holds_only hash known f cache'" if l: "lookup hash t cache i = (r, cache')"
  proof (cases cache)
    case (Some c)
    with l lookup_Some [of hash t c i] obtain c' where c': "lookup hash t (Some c) i = (r, Some c')" "cache' = Some c'"
      by auto
    have wf: "wf_cache c" using h Some by (simp add: holds_only_def)
    note ref = lookup_refines [OF wf c'(1)]
    have "set (entries c') \<subseteq> set (entries c)"
      using lookup_spec_sound(1) [OF ref(4) [symmetric]] .
    with h Some c'(2) ref(1) show ?thesis by (auto simp: holds_only_def)
  qed (use l in \<open>simp add: holds_only_def\<close>)
  show "f i = Inr v" if l: "lookup hash t cache i = (Some v, cache')" and i: "i \<in> known"
  proof (cases cache)
    case (Some c)
    with l lookup_Some [of hash t c i] obtain c' where c': "lookup hash t (Some c) i = (Some v, Some c')"
      by auto
    have wf: "wf_cache c" using h Some by (simp add: holds_only_def)
    note ref = lookup_refines [OF wf c']
    from lookup_spec_sound(2) [OF ref(4) [symmetric] refl] h i Some show ?thesis
      by (auto simp: holds_only_def)
  qed (use l in simp)
  show "holds_only hash known f (store hash t cache i v)" if i: "i \<in> known" and v: "f i = Inr v"
  proof (cases cache)
    case (Some c)
    obtain c' where c': "store hash t (Some c) i v = Some c'" using store_Some by blast
    have wf: "wf_cache c" and inj: "inj_on hash known" using h Some by (simp_all add: holds_only_def)
    note ref = store_refines [OF wf c']
    have "f j = Inr (ent_value e)" if e: "e \<in> set (entries c')" "j \<in> known" "ent_key e = hash j" for e j
    proof -
      from e(1) consider "e = \<lparr>ent_key = hash i, ent_value = v, stored = t\<rparr>" | "e \<in> set (entries c)"
        unfolding ref(4) by (auto simp: others_def dest!: store_spec_sound)
      then show ?thesis
      proof cases
        case 1
        then have "j = i" using e(2,3) i inj by (auto dest: inj_onD)
        with 1 v show ?thesis by simp
      next
        case 2
        with h Some e show ?thesis by (auto simp: holds_only_def)
      qed
    qed
    with Some c' ref(1) inj show ?thesis by (simp add: holds_only_def)
  qed (simp add: holds_only_def)
qed

section \<open>How a call uses the cache\<close>

text \<open>Look up, and on a miss compute and store; a failed computation is not stored.\<close>

definition cached_output ::
  "(string \<Rightarrow> string) \<Rightarrow> (string \<Rightarrow> 'e + string) \<Rightarrow> int \<times> int \<Rightarrow> renderCache option \<Rightarrow> string \<Rightarrow>
   ('e + string) \<times> renderCache option"
where
  "cached_output hash render t cache key =
     (case lookup hash (fst t) cache key of
        (Some cached, cache') \<Rightarrow> (Inr cached, cache')
      | (None, cache') \<Rightarrow>
          (case render key of
             Inl e \<Rightarrow> (Inl e, cache')
           | Inr out \<Rightarrow> (Inr out, store hash (snd t) cache' key out)))"

lemma cached_output_memo: "cached_output = render_cache.memo"
  by (simp add: fun_eq_iff cached_output_def render_cache.memo_def)

primrec cached_outputs ::
  "(string \<Rightarrow> string) \<Rightarrow> (string \<Rightarrow> 'e + string) \<Rightarrow> renderCache option \<Rightarrow>
   ((int \<times> int) \<times> string) list \<Rightarrow> ('e + string) list"
where
  "cached_outputs hash render cache [] = []"
| "cached_outputs hash render cache (q # qs) =
     (case cached_output hash render (fst q) cache (snd q) of
        (r, cache') \<Rightarrow> r # cached_outputs hash render cache' qs)"

lemma cached_outputs_memo: "cached_outputs hash render cache qs = render_cache.memo_all hash render cache qs"
  by (induction qs arbitrary: cache) (simp_all add: cached_output_memo split: prod.split)

lemma holds_only_new:
  "inj_on hash known \<Longrightarrow> holds_only hash known render (newRenderCache n lifetime)"
  using wf_cache_new [of n lifetime]
  by (auto simp: holds_only_def newRenderCache_def entries_def split: if_splits)

datatype cache_op = Lookup int string | Store int string string

fun run_op :: "(string \<Rightarrow> string) \<Rightarrow> renderCache option \<Rightarrow> cache_op \<Rightarrow> renderCache option" where
  "run_op hash c (Lookup t i) = snd (lookup hash t c i)"
| "run_op hash c (Store t i v) = store hash t c i v"

lemma run_op_Some: "\<exists>c'. run_op hash (Some c) oper = Some c'"
  using lookup_Some store_Some by (cases oper) (metis run_op.simps snd_conv)+

lemma run_ops_Some: "\<exists>c'. foldl (run_op hash) (Some c) ops = Some c'"
proof (induction ops arbitrary: c)
  case (Cons oper ops)
  obtain c1 where "run_op hash (Some c) oper = Some c1" using run_op_Some by blast
  with Cons show ?case by simp
qed simp

lemma run_op_wf:
  assumes "wf_cache c" and "run_op hash (Some c) oper = Some c'"
  shows "wf_cache c' \<and> rc_max c' = rc_max c \<and> ttl c' = ttl c"
proof (cases oper)
  case (Lookup t i)
  with assms(2) have "lookup hash t (Some c) i = (fst (lookup hash t (Some c) i), Some c')"
    by (simp add: prod_eq_iff)
  from lookup_refines [OF assms(1) this] show ?thesis by simp
next
  case (Store t i v)
  with assms(2) have "store hash t (Some c) i v = Some c'" by simp
  from store_refines [OF assms(1) this] show ?thesis by simp
qed

lemma run_ops_wf:
  "wf_cache c \<Longrightarrow> foldl (run_op hash) (Some c) ops = Some c' \<Longrightarrow>
   wf_cache c' \<and> rc_max c' = rc_max c \<and> ttl c' = ttl c"
proof (induction ops arbitrary: c)
  case (Cons oper ops)
  obtain c1 where c1: "run_op hash (Some c) oper = Some c1" using run_op_Some by blast
  have "foldl (run_op hash) (Some c1) ops = Some c'" using Cons.prems(2) c1 by simp
  with run_op_wf [OF Cons.prems(1) c1] Cons.IH [of c1] show ?case by simp
qed simp

section \<open>How long an entry stays\<close>

text \<open>The keys in front of an entry are keys used since; while these are fewer than the places of
  the cache, the entry is not evicted.\<close>

fun op_input :: "cache_op \<Rightarrow> string" where
  "op_input (Lookup t i) = i"
| "op_input (Store t i v) = i"

lemma others_split:
  "ent_key e \<noteq> k \<Longrightarrow> others k (pre @ e # suf) = others k pre @ e # others k suf"
  by (simp add: others_def)

lemma lookup_spec_stays:
  assumes "lookup_spec lifetime now (pre @ e # suf) k = (r, es)" and "ent_key e \<noteq> k"
  shows "\<exists>pre' suf'. es = pre' @ e # suf' \<and> ent_key ` set pre' \<subseteq> insert k (ent_key ` set pre)"
proof (cases "find (\<lambda>e. ent_key e = k) (pre @ e # suf)")
  case None
  with assms(1) show ?thesis by (auto simp: lookup_spec_def)
next
  case (Some ent)
  then have k: "ent_key ent = k" by (auto simp: find_Some_iff)
  have sub: "set (others k pre) \<subseteq> set pre" by (auto simp: others_def)
  show ?thesis
  proof (cases "expired lifetime now (stored ent)")
    case True
    with assms Some have "es = others k pre @ e # others k suf" by (simp add: lookup_spec_def others_split)
    with sub show ?thesis by blast
  next
    case False
    with assms Some have "es = (ent # others k pre) @ e # others k suf"
      by (simp add: lookup_spec_def others_split)
    with sub k show ?thesis by (intro exI [of _ "ent # others k pre"] exI [of _ "others k suf"]) auto
  qed
qed

lemma store_spec_stays:
  assumes "distinct (map ent_key (pre @ e # suf))" and "ent_key e \<noteq> k"
    and "int (card (insert k (ent_key ` set pre))) < capacity"
  shows "\<exists>pre' suf'. store_spec capacity now (pre @ e # suf) k v = pre' @ e # suf' \<and>
    ent_key ` set pre' \<subseteq> insert k (ent_key ` set pre)"
proof -
  let ?pre = "\<lparr>ent_key = k, ent_value = v, stored = now\<rparr> # others k pre"
  have sub: "ent_key ` set ?pre \<subseteq> insert k (ent_key ` set pre)" by (auto simp: others_def)
  have "distinct (map ent_key ?pre)"
    using assms(1) by (auto simp: others_def distinct_map intro: inj_on_subset)
  then have "length ?pre = card (ent_key ` set ?pre)"
    by (metis distinct_card length_map list.set_map)
  also have "\<dots> \<le> card (insert k (ent_key ` set pre))" by (rule card_mono [OF _ sub]) simp
  finally have "length ?pre < nat capacity" using assms(3) by linarith
  then have "take (nat capacity) (?pre @ e # others k suf) =
      ?pre @ e # take (nat capacity - Suc (length ?pre)) (others k suf)"
    by (simp add: take_Cons' take_append)
  then have "store_spec capacity now (pre @ e # suf) k v =
      ?pre @ e # take (nat capacity - Suc (length ?pre)) (others k suf)"
    by (simp add: store_spec_def others_split [OF assms(2)])
  with sub show ?thesis by blast
qed

lemma run_op_stays:
  assumes "wf_cache c" and "run_op hash (Some c) oper = Some c'" and "entries c = pre @ e # suf"
    and "ent_key e \<noteq> hash (op_input oper)"
    and "int (card (insert (hash (op_input oper)) (ent_key ` set pre))) < rc_max c"
  shows "\<exists>pre' suf'. entries c' = pre' @ e # suf' \<and>
    ent_key ` set pre' \<subseteq> insert (hash (op_input oper)) (ent_key ` set pre)"
proof (cases oper)
  case (Lookup t i)
  with assms(2) have l: "lookup hash t (Some c) i = (fst (lookup hash t (Some c) i), Some c')"
    by (simp add: prod_eq_iff)
  from lookup_spec_stays [OF lookup_refines(4) [OF assms(1) l, symmetric, unfolded assms(3)]] assms(4) Lookup
  show ?thesis by simp
next
  case (Store t i v)
  with assms(2) have "store hash t (Some c) i v = Some c'" by simp
  from store_refines(4) [OF assms(1) this] Store assms(4,5)
    store_spec_stays [OF entries_keys_distinct [OF assms(1), unfolded assms(3)]]
  show ?thesis by (simp add: assms(3))
qed

lemma run_ops_stay:
  assumes "wf_cache c" and "foldl (run_op hash) (Some c) ops = Some c'" and "entries c = pre @ e # suf"
    and "ent_key ` set pre \<subseteq> T" and "(\<lambda>oper. hash (op_input oper)) ` set ops \<subseteq> T" and "finite T"
    and "ent_key e \<notin> T" and "int (card T) < rc_max c"
  shows "\<exists>pre' suf'. entries c' = pre' @ e # suf'"
  using assms
proof (induction ops arbitrary: c pre suf)
  case (Cons oper ops)
  obtain c1 where c1: "run_op hash (Some c) oper = Some c1" using run_op_Some by blast
  have sub: "insert (hash (op_input oper)) (ent_key ` set pre) \<subseteq> T" using Cons.prems(4,5) by simp
  then have "int (card (insert (hash (op_input oper)) (ent_key ` set pre))) < rc_max c"
    using card_mono [OF Cons.prems(6) sub] Cons.prems(8) by linarith
  moreover have "ent_key e \<noteq> hash (op_input oper)" using Cons.prems(5,7) by auto
  ultimately obtain pre' suf' where "entries c1 = pre' @ e # suf'"
    "ent_key ` set pre' \<subseteq> insert (hash (op_input oper)) (ent_key ` set pre)"
    using run_op_stays [OF Cons.prems(1) c1 Cons.prems(3)] by blast
  moreover from this(2) sub have "ent_key ` set pre' \<subseteq> T" by (rule subset_trans)
  moreover note run_op_wf [OF Cons.prems(1) c1]
  moreover have "foldl (run_op hash) (Some c1) ops = Some c'" using Cons.prems(2) c1 by simp
  ultimately show ?case using Cons.IH [of c1 pre' suf'] Cons.prems(5-8) by simp
qed auto

lemma store_then_ops:
  assumes "wf_cache c" and "store hash t (Some c) input output = Some c1"
    and "foldl (run_op hash) (Some c1) ops = Some c2"
    and "int (card ((\<lambda>oper. hash (op_input oper)) ` set ops)) < rc_max c"
    and "hash input \<notin> (\<lambda>oper. hash (op_input oper)) ` set ops"
  shows "\<exists>pre suf. entries c2 = pre @ \<lparr>ent_key = hash input, ent_value = output, stored = t\<rparr> # suf"
proof -
  note s = store_refines [OF assms(1,2)]
  have "nat (rc_max c) = Suc (nat (rc_max c) - 1)" using wf_cacheD(4) [OF assms(1)] by simp
  then obtain es where "entries c1 = [] @ \<lparr>ent_key = hash input, ent_value = output, stored = t\<rparr> # es"
    unfolding s(4) store_spec_def by (metis take_Suc_Cons append_Nil)
  from run_ops_stay [OF s(1) assms(3) this, where T = "(\<lambda>oper. hash (op_input oper)) ` set ops"] assms(4,5) s(2)
  show ?thesis by simp
qed

section \<open>Properties\<close>

text \<open>C18: whatever sequence of look-ups and stores a new cache goes through, it holds at most the
  configured number of entries, no key twice, and its map and its list agree: the map leads a key
  to exactly the list element that carries it.\<close>

theorem cache_invariant:
  assumes "newRenderCache n lifetime = Some c" and "foldl (run_op hash) (Some c) ops = Some c'"
  shows "int (length (ll c')) \<le> n \<and> distinct (map ent_key (entries c')) \<and>
    (\<forall>k el. items c' k = Some el \<longleftrightarrow> el \<in> set (ll c') \<and> ent_key (heap c' el) = k)"
proof -
  have "wf_cache c'" "rc_max c' = rc_max c"
    using run_ops_wf [OF wf_cache_new [OF assms(1)] assms(2)] by auto
  moreover have "rc_max c = n" using assms(1) by (auto simp: newRenderCache_def split: if_splits)
  ultimately show ?thesis
    using entries_keys_distinct [of c'] wf_cacheD(3,5) [of c'] by auto
qed

theorem cache_invariant_witness:
  "\<exists>c'. foldl (run_op id) (newRenderCache 1 0) [Store 0 ''a'' ''x'', Store 1 ''b'' ''y''] = Some c' \<and>
     length (ll c') \<le> 1"
proof -
  obtain c where c: "newRenderCache 1 0 = Some c" by (simp add: newRenderCache_def)
  obtain c1 where c1: "store id 0 (Some c) ''a'' ''x'' = Some c1" using store_Some by blast
  obtain c2 where c2: "store id 1 (Some c1) ''b'' ''y'' = Some c2" using store_Some by blast
  have "foldl (run_op id) (Some c) [Store 0 ''a'' ''x'', Store 1 ''b'' ''y''] = Some c2"
    by (simp add: c1 c2)
  with cache_invariant [OF c this] c show ?thesis by auto
qed

text \<open>C19: the cache behaves as a list of entries in order of use: a look-up moves the entry to the
  front or drops it when it has expired, a store puts the entry in front and cuts the list at its
  capacity, which evicts the least recently used entry.\<close>

theorem cache_refines_LRU:
  assumes "wf_cache c"
  shows "(\<exists>r c'. lookup hash now (Some c) input = (r, Some c') \<and> wf_cache c' \<and>
      (r, entries c') = lookup_spec (ttl c) now (entries c) (hash input)) \<and>
    (\<exists>c'. store hash now (Some c) input output = Some c' \<and> wf_cache c' \<and>
      entries c' = store_spec (rc_max c) now (entries c) (hash input) output)"
proof -
  obtain r c1 where l: "lookup hash now (Some c) input = (r, Some c1)" using lookup_Some by blast
  obtain c2 where s: "store hash now (Some c) input output = Some c2" using store_Some by blast
  from lookup_refines [OF assms l] store_refines [OF assms s] l s show ?thesis by blast
qed

theorem cache_refines_LRU_witness:
  "\<exists>c c1 c2. newRenderCache 1 0 = Some c \<and> store id 0 (Some c) ''a'' ''x'' = Some c1 \<and>
     store id 1 (Some c1) ''b'' ''y'' = Some c2 \<and>
     entries c2 = [\<lparr>ent_key = ''b'', ent_value = ''y'', stored = 1\<rparr>]"
proof -
  obtain c where c: "newRenderCache 1 0 = Some c" by (simp add: newRenderCache_def)
  have c0: "rc_max c = 1" "entries c = []" using c by (auto simp: newRenderCache_def entries_def)
  from cache_refines_LRU [OF wf_cache_new [OF c], of id 0 "''a''" "''x''"]
  obtain c1 where c1: "store id 0 (Some c) ''a'' ''x'' = Some c1" "wf_cache c1"
    "entries c1 = [\<lparr>ent_key = ''a'', ent_value = ''x'', stored = 0\<rparr>]"
    using c0 by (auto simp: store_spec_def others_def)
  have max: "rc_max c1 = 1" using store_refines(2) [OF wf_cache_new [OF c] c1(1)] c0 by simp
  from cache_refines_LRU [OF c1(2), of id 1 "''b''" "''y''"]
  obtain c2 where "store id 1 (Some c1) ''b'' ''y'' = Some c2"
    "entries c2 = [\<lparr>ent_key = ''b'', ent_value = ''y'', stored = 1\<rparr>]"
    using c1(3) max by (auto simp: store_spec_def others_def)
  with c c1 show ?thesis by blast
qed

text \<open>Memoising is invisible: when SHA-256 has no collision among the keys of the calls, any
  sequence of calls through the cache, with any size, lifetime and clock, yields for each call
  exactly what rendering yields, errors included.\<close>

theorem cache_is_transparent:
  assumes "inj_on hash (snd ` set qs)"
  shows "cached_outputs hash render (newRenderCache n lifetime) qs = map (\<lambda>q. render (snd q)) qs"
  unfolding cached_outputs_memo
  by (rule render_cache.memo_all_transparent [OF holds_only_new [OF assms] subset_refl])

theorem cache_is_transparent_witness:
  "cached_outputs id (\<lambda>i. if i = [] then Inl () else Inr (i @ i)) (newRenderCache 1 5)
     [((0, 1), ''a''), ((2, 3), ''a''), ((9, 9), [])] = [Inr ''aa'', Inr ''aa'', Inl ()]"
  using cache_is_transparent [of id "[((0, 1), ''a''), ((2, 3), ''a''), ((9, 9), [])]"
      "\<lambda>i. if i = [] then Inl () else Inr (i @ i)" 1 5] by simp

text \<open>C20: a stored output is found again until its lifetime is over and not afterwards, as long as the
  operations in between use other keys, and fewer different ones than the cache has places: only
  then the store cannot have been evicted. Each look-up counts once, as a hit or as a miss.\<close>

theorem store_then_lookup:
  assumes "wf_cache c" and "store hash t (Some c) input output = Some c1"
    and "foldl (run_op hash) (Some c1) ops = Some c2"
    and "\<And>oper. oper \<in> set ops \<Longrightarrow> hash (op_input oper) \<noteq> hash input"
    and "int (card ((\<lambda>oper. hash (op_input oper)) ` set ops)) < rc_max c"
    and "lookup hash t' (Some c2) input = (r, c3)"
  shows "r = (if 0 < ttl c \<and> ttl c \<le> time_sub t' t then None else Some output) \<and>
    stats c3 = (case r of None \<Rightarrow> (fst (stats (Some c2)), snd (stats (Some c2)) + 1)
                | Some v \<Rightarrow> (fst (stats (Some c2)) + 1, snd (stats (Some c2))))"
proof -
  let ?e = "\<lparr>ent_key = hash input, ent_value = output, stored = t\<rparr>"
  have "ent_key ?e \<notin> (\<lambda>oper. hash (op_input oper)) ` set ops" using assms(4) by force
  then obtain pre suf where es: "entries c2 = pre @ ?e # suf"
    using store_then_ops [OF assms(1-3,5)] by auto
  have wf: "wf_cache c2" and ttl: "ttl c2 = ttl c"
    using store_refines(1,3) [OF assms(1,2)] run_ops_wf [OF _ assms(3)] by auto
  obtain c3' where c3: "c3 = Some c3'" using assms(6) lookup_Some [of hash t' c2 input] by auto
  have l: "lookup hash t' (Some c2) input = (r, Some c3')" using assms(6) c3 by simp
  have "find (\<lambda>e. ent_key e = hash input) (entries c2) = Some ?e"
    by (rule find_distinct [OF entries_keys_distinct [OF wf]]) (simp_all add: es)
  then have "r = (if expired (ttl c) t' t then None else Some output)"
    using lookup_refines(4) [OF wf l] by (auto simp: lookup_spec_def ttl split: if_splits)
  moreover have "stats (Some c3') = (case r of None \<Rightarrow> (hits c2, misses c2 + 1) | Some v \<Rightarrow> (hits c2 + 1, misses c2))"
    using l by (auto simp: lookup_def stats_def Let_def split: option.splits if_splits)
  ultimately show ?thesis using c3 by (simp add: expired_def stats_def)
qed

theorem store_then_lookup_witness:
  "\<exists>c c1 c2. newRenderCache 2 10 = Some c \<and> store id 0 (Some c) ''a'' ''x'' = Some c1 \<and>
     foldl (run_op id) (Some c1) [Store 1 ''b'' ''y'', Lookup 2 ''b''] = Some c2 \<and>
     fst (lookup id 9 (Some c2) ''a'') = Some ''x'' \<and> fst (lookup id 10 (Some c2) ''a'') = None"
proof -
  let ?ops = "[Store 1 ''b'' ''y'', Lookup 2 ''b'']"
  obtain c where c: "newRenderCache 2 10 = Some c" by (simp add: newRenderCache_def)
  then have ttl: "ttl c = 10" and max: "rc_max c = 2" by (auto simp: newRenderCache_def)
  obtain c1 where c1: "store id 0 (Some c) ''a'' ''x'' = Some c1" using store_Some by blast
  obtain c2 where c2: "foldl (run_op id) (Some c1) ?ops = Some c2" using run_ops_Some by blast
  obtain r d r' d' where l: "lookup id 9 (Some c2) ''a'' = (r, d)" "lookup id 10 (Some c2) ''a'' = (r', d')"
    by fastforce
  have other: "id (op_input oper) \<noteq> id ''a''" if "oper \<in> set ?ops" for oper using that by auto
  have card: "int (card ((\<lambda>oper. id (op_input oper)) ` set ?ops)) < rc_max c" by (simp add: max)
  from store_then_lookup [OF wf_cache_new [OF c] c1 c2 other card l(1)]
    store_then_lookup [OF wf_cache_new [OF c] c1 c2 other card l(2)]
  have "r = Some ''x''" and "r' = None" by (simp_all add: ttl time_sub_def)
  with c c1 c2 l show ?thesis by simp
qed

end
