(* ===== verification/Env_Config.thy ===== *)
theory Env_Config
  imports Go_Strings Render_Cache
begin

text \<open>
  The configuration of \<open>recycle.go\<close> and \<open>rendercache.go\<close>: the readers of environment variables,
  the memory limit of the control group, the resident set size, and the two constructors that put
  them together. Sizes are \<open>uint64\<close> values that wrap, durations are nanoseconds. Floating point
  arithmetic and the parsers \<open>ParseFloat\<close> and \<open>ParseDuration\<close> are parameters of \<open>sys\<close>.
\<close>

section \<open>The operating system\<close>

text \<open>\<open>ScaleLimit v r\<close> stands for \<open>uint64(float64(v) * r)\<close>, \<open>IsPositive r\<close> for \<open>r > 0\<close>.\<close>

record 'f sys =
  LookupEnv :: "string \<Rightarrow> string option"
  ReadFile :: "string \<Rightarrow> go_error + string"
  Getpagesize :: "64 word"
  ParseFloat :: "string \<Rightarrow> 'f option"
  ParseDuration :: "string \<Rightarrow> int option"
  IsPositive :: "'f \<Rightarrow> bool"
  ScaleLimit :: "64 word \<Rightarrow> 'f \<Rightarrow> 64 word"

section \<open>Environment variables\<close>

definition envUint :: "'f sys \<Rightarrow> string \<Rightarrow> 64 word \<Rightarrow> 64 word" where
  "envUint S key def =
     (case LookupEnv S key of
        None \<Rightarrow> def
      | Some v \<Rightarrow> (case parse_uint (trim_space v) of None \<Rightarrow> def | Some n \<Rightarrow> n))"

definition envFloat :: "'f sys \<Rightarrow> string \<Rightarrow> 'f \<Rightarrow> 'f" where
  "envFloat S key def =
     (case LookupEnv S key of
        None \<Rightarrow> def
      | Some v \<Rightarrow> (case ParseFloat S (trim_space v) of None \<Rightarrow> def | Some f \<Rightarrow> f))"

definition envDuration :: "'f sys \<Rightarrow> string \<Rightarrow> int \<Rightarrow> int" where
  "envDuration S key def =
     (case LookupEnv S key of
        None \<Rightarrow> def
      | Some v \<Rightarrow> (case ParseDuration S (trim_space v) of None \<Rightarrow> def | Some d \<Rightarrow> d))"

definition envBytes :: "'f sys \<Rightarrow> string \<Rightarrow> 64 word \<Rightarrow> 64 word" where
  "envBytes S key def =
     (case LookupEnv S key of
        None \<Rightarrow> def
      | Some v \<Rightarrow>
          (let s = trim_space v;
               (mult, s') =
                 (if has_suffix s ''Gi'' then (2 ^ 30, trim_suffix s ''Gi'')
                  else if has_suffix s ''Mi'' then (2 ^ 20, trim_suffix s ''Mi'')
                  else if has_suffix s ''Ki'' then (2 ^ 10, trim_suffix s ''Ki'')
                  else (1, s))
           in case parse_uint (trim_space s') of None \<Rightarrow> def | Some n \<Rightarrow> n * mult))"

section \<open>Memory limit and resident set size\<close>

definition readCgroupLimit :: "'f sys \<Rightarrow> string \<Rightarrow> 64 word option" where
  "readCgroupLimit S path =
     (case ReadFile S path of
        Inl e \<Rightarrow> None
      | Inr data \<Rightarrow>
          (let s = trim_space data
           in if s = [] \<or> s = ''max'' then None
              else case parse_uint s of
                None \<Rightarrow> None
              | Some v \<Rightarrow> if v = 0 \<or> v \<ge> 2 ^ 50 then None else Some v))"

definition cgroupMemoryLimit :: "'f sys \<Rightarrow> 64 word option" where
  "cgroupMemoryLimit S =
     (case readCgroupLimit S ''/sys/fs/cgroup/memory.max'' of
        Some v \<Rightarrow> Some v
      | None \<Rightarrow> readCgroupLimit S ''/sys/fs/cgroup/memory/memory.limit_in_bytes'')"

definition processRSS :: "'f sys \<Rightarrow> go_error + 64 word" where
  "processRSS S =
     bind_result (ReadFile S ''/proc/self/statm'') (\<lambda>data.
       let fs = Fields data
       in if length fs < 2 then Inl (External ''unexpected /proc/self/statm format'')
          else case parse_uint (fs ! 1) of
            None \<Rightarrow> Inl (External ''strconv.ParseUint'')
          | Some residentPages \<Rightarrow> Inr (residentPages * Getpagesize S))"

section \<open>The two configurations\<close>

record 'f recycleConfig =
  maxRSSBytes :: "64 word"
  maxRSSRatio :: 'f
  maxReconciles :: "64 word"
  maxLifetime :: int
  checkInterval :: int
  drainTimeout :: int

definition envMaxRSSBytes :: string where "envMaxRSSBytes = ''FUNCTION_KCL_MAX_RSS_BYTES''"
definition envMaxRSSRatio :: string where "envMaxRSSRatio = ''FUNCTION_KCL_MAX_RSS_RATIO''"
definition envMaxReconciles :: string where "envMaxReconciles = ''FUNCTION_KCL_MAX_RECONCILES''"
definition envMaxLifetime :: string where "envMaxLifetime = ''FUNCTION_KCL_MAX_LIFETIME''"
definition envCheckInterval :: string where
  "envCheckInterval = ''FUNCTION_KCL_RECYCLE_CHECK_INTERVAL''"
definition envDrainTimeout :: string where
  "envDrainTimeout = ''FUNCTION_KCL_RECYCLE_DRAIN_TIMEOUT''"
definition envRenderCacheSize :: string where
  "envRenderCacheSize = ''FUNCTION_KCL_RENDER_CACHE_SIZE''"
definition envRenderCacheTTL :: string where
  "envRenderCacheTTL = ''FUNCTION_KCL_RENDER_CACHE_TTL''"

definition second :: int where "second = 10 ^ 9"
definition defaultCheckInterval :: int where "defaultCheckInterval = 30 * second"
definition defaultDrainTimeout :: int where "defaultDrainTimeout = 15 * second"

text \<open>The default ratio 0.85 is an argument, as the type of floats is a parameter.\<close>

definition recycleConfigFromEnv :: "'f sys \<Rightarrow> 'f \<Rightarrow> 'f recycleConfig" where
  "recycleConfigFromEnv S defaultMaxRSSRatio =
     (let cfg =
        \<lparr>maxRSSBytes = envBytes S envMaxRSSBytes 0,
         maxRSSRatio = envFloat S envMaxRSSRatio defaultMaxRSSRatio,
         maxReconciles = envUint S envMaxReconciles 0,
         maxLifetime = envDuration S envMaxLifetime 0,
         checkInterval = envDuration S envCheckInterval defaultCheckInterval,
         drainTimeout = envDuration S envDrainTimeout defaultDrainTimeout\<rparr>
      in if maxRSSBytes cfg = 0 \<and> IsPositive S (maxRSSRatio cfg) then
           (case cgroupMemoryLimit S of
              Some limit \<Rightarrow> cfg\<lparr>maxRSSBytes := ScaleLimit S limit (maxRSSRatio cfg)\<rparr>
            | None \<Rightarrow> cfg)
         else cfg)"

definition recycle_enabled :: "'f recycleConfig \<Rightarrow> bool" where
  "recycle_enabled c \<longleftrightarrow> maxRSSBytes c > 0 \<or> maxReconciles c > 0 \<or> maxLifetime c > 0"

text \<open>The conversion \<open>int(uint64)\<close> reinterprets the sign bit.\<close>

definition newRenderCacheFromEnv :: "'f sys \<Rightarrow> renderCache option" where
  "newRenderCacheFromEnv S =
     newRenderCache (sint (envUint S envRenderCacheSize 0)) (envDuration S envRenderCacheTTL 0)"

section \<open>Reading decimal texts\<close>

lemma trim_itoa: "trim_space (itoa n @ u) = itoa n @ u" if "\<And>c. c \<in> set u \<Longrightarrow> plain_char c"
  using that by (intro trim_space_plain) (auto dest: itoa_plain)

lemma itoa_no_suffix: "\<not> has_suffix (itoa n) (u @ ''i'')"
proof
  assume "has_suffix (itoa n) (u @ ''i'')"
  then have "CHR ''i'' \<in> set (itoa n)" by (auto simp: has_suffix_iff dest: arg_cong [of _ _ set])
  from itoa_digits [OF this] show False by simp
qed

definition suffix_factor :: "string \<Rightarrow> nat" where
  "suffix_factor u =
     (if u = ''Gi'' then 2 ^ 30 else if u = ''Mi'' then 2 ^ 20 else if u = ''Ki'' then 2 ^ 10 else 1)"

lemma envBytes_text:
  assumes "LookupEnv S key = Some (itoa n @ u)" and "u \<in> {[], ''Ki'', ''Mi'', ''Gi''}"
  shows "envBytes S key def = (if n < 2 ^ 64 then word_of_nat (n * suffix_factor u) else def)"
proof -
  have plain: "\<And>c. c \<in> set u \<Longrightarrow> plain_char c" using assms(2) by (auto simp: plain_char_def)
  have trim: "trim_space (itoa n) = itoa n" using trim_itoa [of "[]" n] by simp
  have no: "\<not> has_suffix (itoa n) ''Gi''" "\<not> has_suffix (itoa n) ''Mi''" "\<not> has_suffix (itoa n) ''Ki''"
    using itoa_no_suffix [of n "''G''"] itoa_no_suffix [of n "''M''"] itoa_no_suffix [of n "''K''"]
    by simp_all
  have other: "u \<noteq> [] \<Longrightarrow> has_suffix (itoa n @ u) ''Gi'' \<longleftrightarrow> u = ''Gi''"
    "u \<noteq> [] \<Longrightarrow> has_suffix (itoa n @ u) ''Mi'' \<longleftrightarrow> u = ''Mi''"
    "u \<noteq> [] \<Longrightarrow> has_suffix (itoa n @ u) ''Ki'' \<longleftrightarrow> u = ''Ki''"
    using assms(2) by (auto simp: has_suffix_append_longer has_suffix_def)
  show ?thesis
  proof (cases "u = []")
    case True
    with no trim assms(1) show ?thesis
      by (simp add: envBytes_def suffix_factor_def parse_uint_itoa parse_uint_itoa_overflow)
  next
    case False
    have "envBytes S key def =
        (case parse_uint (itoa n) of None \<Rightarrow> def | Some m \<Rightarrow> m * word_of_nat (suffix_factor u))"
      using other [OF False] assms False trim trim_itoa [of u n, OF plain]
      by (auto simp: envBytes_def Let_def suffix_factor_def split: option.split)
    then show ?thesis by (simp add: parse_uint_itoa parse_uint_itoa_overflow)
  qed
qed

lemma envUint_text:
  "LookupEnv S key = Some (itoa n) \<Longrightarrow> envUint S key def = (if n < 2 ^ 64 then word_of_nat n else def)"
  using trim_itoa [of "[]" n]
  by (simp add: envUint_def parse_uint_itoa parse_uint_itoa_overflow)

lemma readCgroupLimit_bound:
  "readCgroupLimit S path = Some v \<Longrightarrow> 0 < v \<and> v < 2 ^ 50"
  by (auto simp: readCgroupLimit_def Let_def word_neq_0_conv not_le split: sum.splits if_splits option.splits)

lemma readCgroupLimit_text:
  assumes "ReadFile S path = Inr (itoa n @ [CHR 0x0A])"
  shows "readCgroupLimit S path = (if 0 < n \<and> n < 2 ^ 50 then Some (word_of_nat n) else None)"
proof -
  have nl: "trim_space (itoa n @ [CHR 0x0A]) = itoa n" by (rule trim_space_newline) (rule itoa_plain)
  have "itoa n \<noteq> ''max''"
    using itoa_digits [of "CHR ''m''" n] by auto
  moreover have "(word_of_nat n :: 64 word) = 0 \<or> (2 ^ 50 :: 64 word) \<le> word_of_nat n \<longleftrightarrow> n = 0 \<or> 2 ^ 50 \<le> n"
    if "n < 2 ^ 64"
  proof -
    have "unat (word_of_nat n :: 64 word) = n" using that by (simp add: unat_of_nat)
    then show ?thesis by (simp add: word_le_nat_alt flip: unat_eq_zero)
  qed
  ultimately show ?thesis
    using assms
    by (cases "n < 2 ^ 64")
       (auto simp: readCgroupLimit_def nl Let_def parse_uint_itoa parse_uint_itoa_overflow not_less)
qed

section \<open>Properties\<close>

definition example_sys :: "(string \<rightharpoonup> string) \<Rightarrow> (string \<rightharpoonup> string) \<Rightarrow> int sys" where
  "example_sys env files =
     \<lparr>LookupEnv = env,
      ReadFile = (\<lambda>p. case files p of None \<Rightarrow> Inl (External ''no such file'') | Some s \<Rightarrow> Inr s),
      Getpagesize = 4096, ParseFloat = (\<lambda>_. None), ParseDuration = (\<lambda>_. None),
      IsPositive = (\<lambda>r. 0 < r), ScaleLimit = (\<lambda>v r. v)\<rparr>"

text \<open>C36: a byte size with an optional unit is read as the number times the unit modulo 2^64: a
  size of 2^64 bytes or more silently wraps, and a number of 64 bits or more is the default.\<close>

theorem envBytes_wraps:
  assumes "LookupEnv S key = Some (itoa n @ u)" and "u \<in> {[], ''Ki'', ''Mi'', ''Gi''}"
  shows "if n < 2 ^ 64 then unat (envBytes S key def) = n * suffix_factor u mod 2 ^ 64
    else envBytes S key def = def"
  using envBytes_text [OF assms, of def] by (simp add: unat_of_nat del: of_nat_mult)

theorem envBytes_wraps_witness:
  "unat (envBytes (example_sys [''K'' \<mapsto> itoa 17179869184 @ ''Gi''] Map.empty) ''K'' 7) = 0 \<and>
   unat (envBytes (example_sys [''K'' \<mapsto> itoa 512 @ ''Mi''] Map.empty) ''K'' 7) = 536870912"
  using envBytes_wraps [of "example_sys [''K'' \<mapsto> itoa 17179869184 @ ''Gi''] Map.empty" "''K''"
      17179869184 "''Gi''" 7]
    envBytes_wraps [of "example_sys [''K'' \<mapsto> itoa 512 @ ''Mi''] Map.empty" "''K''" 512 "''Mi''" 7]
  by (simp add: example_sys_def suffix_factor_def del: itoa.simps)

text \<open>With a control group v2 limit file of a decimal number, the memory limit is that number
  when it is positive and below 1 PiB, and otherwise what the v1 file says; no limit outside these
  bounds is ever returned.\<close>

theorem cgroupMemoryLimit_correct:
  assumes "ReadFile S ''/sys/fs/cgroup/memory.max'' = Inr (itoa n @ [CHR 0x0A])"
  shows "cgroupMemoryLimit S =
      (if 0 < n \<and> n < 2 ^ 50 then Some (word_of_nat n)
       else readCgroupLimit S ''/sys/fs/cgroup/memory/memory.limit_in_bytes'') \<and>
    (case cgroupMemoryLimit S of None \<Rightarrow> True | Some v \<Rightarrow> 0 < v \<and> v < 2 ^ 50)"
  using readCgroupLimit_text [OF assms] readCgroupLimit_bound
  by (auto simp: cgroupMemoryLimit_def split: option.split)

theorem cgroupMemoryLimit_correct_witness:
  "cgroupMemoryLimit (example_sys Map.empty [''/sys/fs/cgroup/memory.max'' \<mapsto> itoa 512 @ [CHR 0x0A]]) =
     Some 512"
  using cgroupMemoryLimit_correct [of "example_sys Map.empty
      [''/sys/fs/cgroup/memory.max'' \<mapsto> itoa 512 @ [CHR 0x0A]]" 512]
  by (simp add: example_sys_def del: itoa.simps)

text \<open>The render cache is on exactly for a configured size between 1 and 2^63 - 1, with that
  size; zero, sizes whose conversion to \<open>int\<close> is negative, and numbers that do not fit turn it
  off. Without configuration there is no cache.\<close>

theorem newRenderCacheFromEnv_size:
  assumes "LookupEnv S envRenderCacheSize = Some (itoa n)"
  shows "case newRenderCacheFromEnv S of
      None \<Rightarrow> n = 0 \<or> 2 ^ 63 \<le> n
    | Some c \<Rightarrow> 0 < n \<and> n < 2 ^ 63 \<and> rc_max c = int n \<and> ll c = []"
proof -
  have sint: "sint (word_of_nat n :: 64 word) = (int n + 2 ^ 63) mod 2 ^ 64 - 2 ^ 63"
    using int_word_sint [of "int n", where ?'a = 64] by simp
  have small: "sint (word_of_nat n :: 64 word) = int n" if "n < 2 ^ 63"
    using that unfolding sint by (subst mod_pos_pos_trivial) auto
  have big: "sint (word_of_nat n :: 64 word) < 0" if "2 ^ 63 \<le> n" "n < 2 ^ 64"
  proof -
    have "(int n + 2 ^ 63) mod 2 ^ 64 = (int n - 2 ^ 63) mod 2 ^ 64"
      by (simp add: mod_eq_dvd_iff)
    also have "\<dots> = int n - 2 ^ 63" using that by (intro mod_pos_pos_trivial) auto
    finally show ?thesis using that unfolding sint by simp
  qed
  show ?thesis
    using small big envUint_text [OF assms, of 0]
    by (cases "n < 2 ^ 63"; cases "n < 2 ^ 64")
       (auto simp: newRenderCacheFromEnv_def newRenderCache_def not_less)
qed

theorem newRenderCacheFromEnv_size_witness:
  "newRenderCacheFromEnv (example_sys [envRenderCacheSize \<mapsto> itoa 9223372036854775808] Map.empty) = None"
  using newRenderCacheFromEnv_size [of "example_sys [envRenderCacheSize \<mapsto> itoa 9223372036854775808] Map.empty"
      9223372036854775808]
  by (auto simp: example_sys_def simp del: itoa.simps split: option.splits)

end
