(* ===== verification/Token_Cache.thy ===== *)
theory Token_Cache
  imports Env_Config
begin

text \<open>
  The registry token cache of \<open>fn.go\<close>: \<open>resetOCITokenCacheIfNeeded\<close> replaces the cache of the ORAS
  client, which itself belongs to a library, when it has grown too old. What is kept here is when it
  was last replaced and how often.
\<close>

section \<open>Replacing the cache\<close>

text \<open>\<open>None\<close> is the zero time the package starts with.\<close>

record oci_cache =
  ociCacheCreated :: "int option"
  ociGeneration :: nat

definition ociCacheMaxAge :: int where
  "ociCacheMaxAge = 30 * 60 * second"

text \<open>The clock is read twice: for the age, and for the time of the new cache.\<close>

definition resetOCITokenCacheIfNeeded :: "int \<times> int \<Rightarrow> oci_cache \<Rightarrow> oci_cache" where
  "resetOCITokenCacheIfNeeded t c =
     (case ociCacheCreated c of
        None \<Rightarrow> \<lparr>ociCacheCreated = Some (snd t), ociGeneration = ociGeneration c + 1\<rparr>
      | Some created \<Rightarrow>
          if time_sub (fst t) created \<ge> ociCacheMaxAge then
            \<lparr>ociCacheCreated = Some (snd t), ociGeneration = ociGeneration c + 1\<rparr>
          else c)"

section \<open>A sequence of calls\<close>

definition readings :: "(int \<times> int) list \<Rightarrow> int list" where
  "readings ts = concat (map (\<lambda>(a, b). [a, b]) ts)"

text \<open>After a call at time \<open>t\<close>: the cache was made between \<open>start\<close> and \<open>t\<close>, and each further
  replacement took its maximal age.\<close>

definition cache_ok :: "int \<Rightarrow> int \<Rightarrow> oci_cache \<Rightarrow> bool" where
  "cache_ok start t c \<longleftrightarrow>
     (\<exists>k. ociCacheCreated c = Some k \<and> start \<le> k \<and> k \<le> t \<and>
          (int (ociGeneration c) - 1) * ociCacheMaxAge \<le> k - start)"

lemma too_old: "time_sub a k \<ge> ociCacheMaxAge \<longleftrightarrow> a - k \<ge> ociCacheMaxAge"
  by (auto simp: time_sub_def ociCacheMaxAge_def second_def)

lemma cache_ok_reset:
  assumes "cache_ok start t c" and "t \<le> a" and "a \<le> b"
  shows "cache_ok start b (resetOCITokenCacheIfNeeded (a, b) c)"
    and "\<exists>k. ociCacheCreated (resetOCITokenCacheIfNeeded (a, b) c) = Some k \<and> a - k < ociCacheMaxAge"
proof -
  obtain k where k: "ociCacheCreated c = Some k" "start \<le> k" "k \<le> t"
    "(int (ociGeneration c) - 1) * ociCacheMaxAge \<le> k - start"
    using assms(1) by (auto simp: cache_ok_def)
  have "int (ociGeneration c) * ociCacheMaxAge \<le> b - start" if "a - k \<ge> ociCacheMaxAge"
    using that k(4) assms(3) by (simp add: algebra_simps)
  with k assms(2,3) show "cache_ok start b (resetOCITokenCacheIfNeeded (a, b) c)"
    by (auto simp: cache_ok_def resetOCITokenCacheIfNeeded_def too_old)
  show "\<exists>k. ociCacheCreated (resetOCITokenCacheIfNeeded (a, b) c) = Some k \<and> a - k < ociCacheMaxAge"
    using k assms(3)
    by (auto simp: resetOCITokenCacheIfNeeded_def too_old) (simp add: ociCacheMaxAge_def second_def)
qed

lemma cache_ok_first:
  assumes "ociCacheCreated c = None" and "ociGeneration c = 0" and "a \<le> b"
  shows "cache_ok a b (resetOCITokenCacheIfNeeded (a, b) c)"
    and "\<exists>k. ociCacheCreated (resetOCITokenCacheIfNeeded (a, b) c) = Some k \<and> a - k < ociCacheMaxAge"
  using assms
  by (auto simp: cache_ok_def resetOCITokenCacheIfNeeded_def) (simp add: ociCacheMaxAge_def second_def)

lemma cache_ok_calls:
  "sorted (readings (ts @ [(a, b)])) \<Longrightarrow> ociCacheCreated c = None \<Longrightarrow> ociGeneration c = 0 \<Longrightarrow>
   cache_ok (fst (hd (ts @ [(a, b)]))) b (fold resetOCITokenCacheIfNeeded (ts @ [(a, b)]) c) \<and>
   (\<exists>k. ociCacheCreated (fold resetOCITokenCacheIfNeeded (ts @ [(a, b)]) c) = Some k \<and>
        a - k < ociCacheMaxAge)"
proof (induction ts arbitrary: a b rule: rev_induct)
  case Nil
  then show ?case using cache_ok_first [of c a b] by (simp add: readings_def)
next
  case (snoc p ts)
  obtain a' b' where p: "p = (a', b')" by (cases p)
  have "sorted (readings (ts @ [(a', b')]))" and le: "b' \<le> a" "a \<le> b"
    using snoc.prems(1) by (auto simp: p readings_def sorted_append)
  from snoc.IH [OF this(1) snoc.prems(2,3)]
  have "cache_ok (fst (hd (ts @ [(a', b')]))) b' (fold resetOCITokenCacheIfNeeded (ts @ [(a', b')]) c)"
    by simp
  from cache_ok_reset [OF this le] show ?case
    by (simp add: p hd_append split: if_splits)
qed

section \<open>Properties\<close>

text \<open>C35: along every sequence of calls under a clock that does not run backwards, the token cache a
  call works with is younger than thirty minutes when the call looks at it, and it is not replaced
  more often than that: one replacement, and one more for each full half hour since the first call.\<close>

theorem token_cache_age:
  assumes "sorted (readings (ts @ [(a, b)]))"
    and "c = fold resetOCITokenCacheIfNeeded (ts @ [(a, b)]) \<lparr>ociCacheCreated = None, ociGeneration = 0\<rparr>"
  shows "\<exists>created. ociCacheCreated c = Some created \<and> created \<le> b \<and> a - created < 30 * 60 * 10 ^ 9 \<and>
    int (ociGeneration c) \<le> 1 + (b - fst (hd (ts @ [(a, b)]))) div (30 * 60 * 10 ^ 9)"
proof -
  let ?M = "30 * 60 * 10 ^ 9 :: int" and ?start = "fst (hd (ts @ [(a, b)]))"
  have M: "ociCacheMaxAge = ?M" by (simp add: ociCacheMaxAge_def second_def)
  obtain k where k: "ociCacheCreated c = Some k" "k \<le> b" "a - k < ?M"
    "(int (ociGeneration c) - 1) * ?M \<le> k - ?start"
    using cache_ok_calls [OF assms(1), of "\<lparr>ociCacheCreated = None, ociGeneration = 0\<rparr>"]
    unfolding assms(2) [symmetric] M cache_ok_def by auto
  have "(int (ociGeneration c) - 1) * ?M \<le> b - ?start" using k(2,4) by simp
  then have "((int (ociGeneration c) - 1) * ?M) div ?M \<le> (b - ?start) div ?M"
    by (intro zdiv_mono1) simp_all
  then have "int (ociGeneration c) - 1 \<le> (b - ?start) div ?M" by simp
  with k show ?thesis by auto
qed

theorem token_cache_age_witness:
  "\<exists>c created. c = fold resetOCITokenCacheIfNeeded ([(0, 1), (2, 3)] @ [(1800000000001, 1800000000002)])
       \<lparr>ociCacheCreated = None, ociGeneration = 0\<rparr> \<and>
     ociCacheCreated c = Some created \<and> 1800000000001 - created < 1800000000000 \<and> ociGeneration c \<le> 2"
  using token_cache_age [of "[(0, 1), (2, 3)]" 1800000000001 1800000000002, OF _ refl]
  by (auto simp: readings_def)

end
