(* ===== verification/Run_Function.thy ===== *)
theory Run_Function
  imports Other_Targets Render Token_Cache
begin

text \<open>
  \<open>fn.go\<close> and \<open>pkg/resource/context.go\<close>: the whole of \<open>RunFunction\<close>, from the admission by the
  recycler to the response, with the render cache and the token cache as its state. Each error
  becomes a fatal result in a response; panics are values. The readers of the request, the writers
  of the response and the codecs belong to the function SDK and are parameters.
\<close>

section \<open>Parameters\<close>

text \<open>\<open>CredentialData\<close> is \<open>None\<close> without the credentials \<open>kcl-registry\<close> and \<open>Some None\<close> when they
  carry no data.\<close>

record 'x request =
  GetInput :: "go_error + KCLInput"
  CredentialData :: "string gomap option option"
  GetObservedCompositeResource :: "go_error + Composite"
  GetDesiredCompositeResource :: "go_error + Composite"
  GetDesiredComposedResources :: "go_error + desired_map"
  GetObservedComposedResources :: "go_error + 'x"
  ContextJSON :: "go_error + string"
  GetExtraResources :: "go_error + 'x"
  GetRequiredResources :: "go_error + 'x"
  ContextMap :: "gval gomap"

text \<open>The JSON codecs see an object's map, which may be nil.\<close>

record 'x codec =
  MarshalObject :: "obj option \<Rightarrow> go_error + string"
  UnmarshalObject :: "string \<Rightarrow> go_error + obj option"
  MarshalDesired :: "desired_map \<Rightarrow> go_error + string"
  MarshalResources :: "'x \<Rightarrow> go_error + string"
  SplitDocuments :: "string \<Rightarrow> go_error + string list"
  UnmarshalYaml :: "string \<Rightarrow> go_error + gval"
  SetAPIVersion :: "obj \<Rightarrow> string \<Rightarrow> obj"
  SetKind :: "obj \<Rightarrow> string \<Rightarrow> obj"
  NewValue :: "gval \<Rightarrow> go_error + gval"

record 'd responder =
  Fatal :: "'d Response \<Rightarrow> go_error \<Rightarrow> 'd Response"
  IsSystemCondition :: "string \<Rightarrow> bool"
  SetContextKey :: "'d Response \<Rightarrow> string \<Rightarrow> gval \<Rightarrow> 'd Response"
  SetDesiredCompositeResource :: "'d Response \<Rightarrow> Composite \<Rightarrow> go_error + 'd Response"
  SetDesiredComposedResources :: "'d Response \<Rightarrow> desired_map \<Rightarrow> go_error + 'd Response"

section \<open>Preparing the input\<close>

definition credentials_from :: "string gomap option option \<Rightarrow> CredSpec \<Rightarrow> CredSpec" where
  "credentials_from creds c =
     (case creds of
        Some (Some data) \<Rightarrow>
          (case map_of data ''password'' of
             None \<Rightarrow> c
           | Some password \<Rightarrow>
               \<lparr>Url = (case map_of data ''url'' of None \<Rightarrow> Url c | Some url \<Rightarrow> url),
                Username = (case map_of data ''username'' of None \<Rightarrow> Username c | Some u \<Rightarrow> u),
                Password = password\<rparr>)
      | _ \<Rightarrow> c)"

definition apply_defaults ::
  "string \<Rightarrow> string \<Rightarrow> string gomap option option \<Rightarrow> KCLInput \<Rightarrow> KCLInput"
where
  "apply_defaults defaultSource dependencies creds i =
     (let sp = Spec i
      in i\<lparr>Spec := sp\<lparr>
           Source := (if Source sp = [] then defaultSource else Source sp),
           Target := (if Target sp = [] then Default else Target sp),
           Params := (case Params sp of None \<Rightarrow> Some [] | Some m \<Rightarrow> Some m),
           Dependencies :=
             (if dependencies \<noteq> [] then dependencies @ [CHR 0x0A] @ Dependencies sp
              else Dependencies sp),
           Credentials := credentials_from creds (Credentials sp)\<rparr>\<rparr>)"

definition set_param :: "string \<Rightarrow> RawExtension \<Rightarrow> KCLInput \<Rightarrow> KCLInput" where
  "set_param k r i =
     i\<lparr>Spec := (Spec i)\<lparr>Params := map_option (AList.update k r) (Params (Spec i))\<rparr>\<rparr>"

text \<open>From the validation to the complete input; the observed composite gives its version and kind
  to the desired one.\<close>

definition prepare ::
  "kube \<Rightarrow> 'n kcl_lib \<Rightarrow> 'x codec \<Rightarrow> 'x request \<Rightarrow> KCLInput \<Rightarrow>
   failure + (KCLInput \<times> Composite \<times> Composite \<times> desired_map)"
where
  "prepare K L C req i0 =
     bind_result (lift_error (wrap_error ''invalid function input'' (Validate i0))) (\<lambda>i1.
     bind_result (lift_error (wrap_error ''cannot get observed composite resource''
       (GetObservedCompositeResource req))) (\<lambda>oxr.
     case xr_Resource oxr of None \<Rightarrow> Inl (Panic NilDereference) | Some x \<Rightarrow>
     bind_result (lift_error (UnstructuredToRawExtension (MarshalObject C) (Some (Some x)))) (\<lambda>p_oxr.
     bind_result (lift_error (wrap_error ''cannot get desired composite resource''
       (GetDesiredCompositeResource req))) (\<lambda>dxr0.
     case xr_Resource dxr0 of None \<Rightarrow> Inl (Panic NilDereference) | Some d0 \<Rightarrow>
     let d = SetKind C (SetAPIVersion C d0 (getAPIVersion K x)) (getKind K x);
         dxr = dxr0\<lparr>xr_Resource := Some d\<rparr> in
     bind_result (lift_error (UnstructuredToRawExtension (MarshalObject C) (Some (Some d)))) (\<lambda>p_dxr.
     bind_result (lift_error (wrap_error ''cannot get desired composed resources''
       (GetDesiredComposedResources req))) (\<lambda>desired.
     bind_result (lift_error (ObjToRawExtension (MarshalDesired C) (Some desired))) (\<lambda>p_dcds.
     bind_result (lift_error (wrap_error ''cannot get observed composed resources''
       (GetObservedComposedResources req))) (\<lambda>observed.
     bind_result (lift_error (ObjToRawExtension (MarshalResources C) (Some observed))) (\<lambda>p_ocds.
     bind_result (lift_error (ContextJSON req)) (\<lambda>ctxByte.
     bind_result (lift_error (JsonByteToRawExtension (UnmarshalObject C) (MarshalObject C) ctxByte)) (\<lambda>p_ctx.
     bind_result (lift_error (wrap_error ''cannot get extra resources'' (GetExtraResources req))) (\<lambda>extras.
     bind_result (lift_error (ObjToRawExtension (MarshalResources C) (Some extras))) (\<lambda>p_extras.
     bind_result (lift_error (wrap_error ''cannot get required resources'' (GetRequiredResources req))) (\<lambda>required.
     bind_result (lift_error (ObjToRawExtension (MarshalResources C) (Some required))) (\<lambda>p_required.
       let i2 = set_param ''requiredResources'' p_required (set_param ''extraResources'' p_extras
             (set_param ''ctx'' p_ctx (set_param ''ocds'' p_ocds (set_param ''dcds'' p_dcds
             (set_param ''dxr'' p_dxr (set_param ''oxr'' p_oxr i1))))))
       in Inr (i2\<lparr>APIVersion := KCLRunAPIVersion L, Kind := KCLRunKind L\<rparr>, oxr, dxr, desired))))))))))))))))"

section \<open>Rendering and processing\<close>

text \<open>The inline path, or the pipeline when it does not handle the source.\<close>

definition render :: "'n kcl_lib \<Rightarrow> KCLInput \<Rightarrow> go_error + string" where
  "render L i =
     bind_result (wrap_error ''failed to run kcl function pipelines'' (renderInline L i)) (\<lambda>out.
       case out of
         Some b \<Rightarrow> Inr b
       | None \<Rightarrow>
           bind_result (wrap_error ''cannot marshal input to yaml'' (MarshalYaml L i)) (\<lambda>kclRunBytes.
             wrap_error ''failed to run kcl function pipelines'' (PipelineExecute L kclRunBytes)))"

definition cache_key :: "'n kcl_lib \<Rightarrow> renderCache option \<Rightarrow> KCLInput \<Rightarrow> go_error + string" where
  "cache_key L cache i =
     (if cache_enabled cache then wrap_error ''cannot derive render cache key'' (renderKey L i)
      else Inr [])"

fun wrap_failure :: "string \<Rightarrow> failure + 'a \<Rightarrow> failure + 'a" where
  "wrap_failure msg (Inl (Error e)) = Inl (Error (Wrapped msg e))"
| "wrap_failure msg (Inl (Panic p)) = Inl (Panic p)"
| "wrap_failure msg (Inr x) = Inr x"

text \<open>
  The base of one entry. A nil map would need the raw bytes \<open>null\<close>, which \<open>RawExtension\<close> never
  holds: its decoder drops a JSON null. That branch reads the nil map as the empty object.
\<close>

definition base_step ::
  "'x codec \<Rightarrow> ResourceEntry list \<Rightarrow> InputResource \<Rightarrow> failure + ResourceEntry list"
where
  "base_step C resources r =
     (case Base r of
        None \<Rightarrow> Inl (Panic NilDereference)
      | Some raw \<Rightarrow>
          bind_result (lift_error (wrap_error ''cannot parse data resources from the pipeline output''
            (JsonByteToUnstructured (UnmarshalObject C) (Raw raw))))
            (\<lambda>base. Inr (resources @ [\<lparr>re_Name = Name r,
                re_Base = (case base of None \<Rightarrow> [] | Some u \<Rightarrow> u)\<rparr>])))"

definition process ::
  "kube \<Rightarrow> 'x codec \<Rightarrow> KCLInput \<Rightarrow> Composite \<Rightarrow> Composite \<Rightarrow> desired_map \<Rightarrow> string \<Rightarrow>
   failure + (proc_state \<times> AddResourcesResult)"
where
  "process K C i oxr dxr desired outputData =
     bind_result (wrap_failure ''cannot parse data resources from the pipeline output''
       (DataResourcesFromYaml (SplitDocuments C) (UnmarshalYaml C) outputData)) (\<lambda>data.
     bind_result (loop (base_step C) [] (spec_Resources (Spec i))) (\<lambda>resources.
       wrap_failure ''cannot process xr and state with the pipeline output''
         (ProcessResources K oxr
            \<lparr>ps_dxr = dxr, ps_desired = desired, ps_extraResources = [], ps_requiredResources = [],
             ps_conditions = [], ps_events = [], ps_contextData = []\<rparr>
            (Target (Spec i)) resources
            \<lparr>Basename = input_Name i, Data = data, Overwrite = True\<rparr>)))"

section \<open>The response\<close>

definition MergeContext :: "kube \<Rightarrow> gval gomap \<Rightarrow> gval gomap \<Rightarrow> go_error + gval gomap" where
  "MergeContext K context val =
     (if val = [] then Inr context else wrap_error ''cannot merge data'' (mergoMerge K context val))"

text \<open>The response as it is when the loop leaves, and whether it left by an error.\<close>

fun set_context_keys ::
  "'x codec \<Rightarrow> 'd responder \<Rightarrow> 'd Response \<Rightarrow> gval gomap \<Rightarrow> 'd Response \<times> bool"
where
  "set_context_keys C R rsp [] = (rsp, True)"
| "set_context_keys C R rsp ((key, v) # mergedCtx) =
     (case NewValue C v of
        Inl e \<Rightarrow> (Fatal R rsp (Wrapped ''cannot convert value to structpb.Value'' e), False)
      | Inr vv \<Rightarrow> set_context_keys C R (SetContextKey R rsp key vv) mergedCtx)"

definition respond_context ::
  "kube \<Rightarrow> 'x codec \<Rightarrow> 'd responder \<Rightarrow> gval gomap \<Rightarrow> 'd Response \<Rightarrow> gval gomap \<Rightarrow> 'd Response \<times> bool"
where
  "respond_context K C R context rsp contextData =
     (if contextData = [] then (rsp, True)
      else case MergeContext K context contextData of
        Inl e \<Rightarrow> (Fatal R rsp (Wrapped ''cannot merge Context'' e), False)
      | Inr mergedCtx \<Rightarrow> set_context_keys C R rsp mergedCtx)"

definition respond_desired :: "'d responder \<Rightarrow> 'd Response \<Rightarrow> proc_state \<Rightarrow> 'd Response" where
  "respond_desired R rsp s =
     (case SetDesiredCompositeResource R rsp (ps_dxr s) of
        Inl e \<Rightarrow> Fatal R rsp (Wrapped ''cannot set desired composite resource'' e)
      | Inr rsp' \<Rightarrow>
          (case SetDesiredComposedResources R rsp' (ps_desired s) of
             Inl e \<Rightarrow> Fatal R rsp' (Wrapped ''cannot set desired composed resources'' e)
           | Inr rsp'' \<Rightarrow> rsp''))"

definition respond_requirements :: "'d Response \<Rightarrow> proc_state \<Rightarrow> 'd Response" where
  "respond_requirements rsp s =
     (if ps_extraResources s \<noteq> [] \<or> ps_requiredResources s \<noteq> [] then
        rsp\<lparr>Requirements := Some (ps_extraResources s, ps_requiredResources s)\<rparr>
      else rsp)"

definition respond ::
  "kube \<Rightarrow> 'x codec \<Rightarrow> 'd responder \<Rightarrow> gval gomap \<Rightarrow> 'd Response \<Rightarrow> proc_state \<Rightarrow> 'd Response"
where
  "respond K C R context rsp s =
     (let rsp1 = respond_requirements rsp s;
          (rsp2, err2) = (if ps_conditions s \<noteq> []
             then SetConditions (IsSystemCondition R) (Fatal R) rsp1 (ps_conditions s)
             else (rsp1, None))
      in if err2 \<noteq> None then rsp2
         else
           let (rsp3, err3) = (if ps_events s \<noteq> [] then SetEvents (Fatal R) rsp2 (ps_events s)
              else (rsp2, None))
           in if err3 \<noteq> None then rsp3
              else
                let (rsp4, ok) = respond_context K C R context rsp3 (ps_contextData s)
                in if \<not> ok then rsp4 else respond_desired R rsp4 s)"

section \<open>RunFunction\<close>

text \<open>\<open>Unavailable\<close> is the gRPC error of a draining process.\<close>

datatype 'd run_result = Unavailable | Responded "'d Response"

record globals =
  defaultSource :: string
  fn_dependencies :: string

record clock =
  t_oci :: "int \<times> int"
  t_lookup :: int
  t_store :: int

definition RunFunction ::
  "globals \<Rightarrow> (string \<Rightarrow> string) \<Rightarrow> kube \<Rightarrow> 'n kcl_lib \<Rightarrow> 'x codec \<Rightarrow> 'd responder \<Rightarrow> clock \<Rightarrow> bool \<Rightarrow>
   'x request \<Rightarrow> 'd Response \<Rightarrow> renderCache option \<Rightarrow> oci_cache \<Rightarrow>
   panic + ('d run_result \<times> renderCache option \<times> oci_cache)"
where
  "RunFunction G hash K L C R t admitted req rsp cache oci =
     (if \<not> admitted then Inr (Unavailable, cache, oci)
      else case GetInput req of
        Inl e \<Rightarrow> Inr (Responded (Fatal R rsp (Wrapped ''cannot get Function input'' e)), cache, oci)
      | Inr i0 \<Rightarrow>
          let i1 = apply_defaults (defaultSource G) (fn_dependencies G) (CredentialData req) i0;
              oci' = (if has_prefix (Source (Spec i1)) ''oci://''
                      then resetOCITokenCacheIfNeeded (t_oci t) oci else oci)
          in case prepare K L C req i1 of
               Inl (Panic p) \<Rightarrow> Inl p
             | Inl (Error e) \<Rightarrow> Inr (Responded (Fatal R rsp e), cache, oci')
             | Inr (i2, oxr, dxr, desired) \<Rightarrow>
                 (case cache_key L cache i2 of
                    Inl e \<Rightarrow> Inr (Responded (Fatal R rsp e), cache, oci')
                  | Inr key \<Rightarrow>
                      (case cached_output hash (\<lambda>_. render L i2) (t_lookup t, t_store t) cache key of
                         (Inl e, cache') \<Rightarrow> Inr (Responded (Fatal R rsp e), cache', oci')
                       | (Inr outputData, cache') \<Rightarrow>
                           (case process K C i2 oxr dxr desired outputData of
                              Inl (Panic p) \<Rightarrow> Inl p
                            | Inl (Error e) \<Rightarrow> Inr (Responded (Fatal R rsp e), cache', oci')
                            | Inr (s, result) \<Rightarrow>
                                Inr (Responded (respond K C R (ContextMap req) rsp s), cache', oci')))))"

section \<open>What preparing establishes\<close>

text \<open>What the request readers of the SDK return: no nil pointers, and a map of connection details.\<close>

definition sound_request :: "'x request \<Rightarrow> bool" where
  "sound_request req \<longleftrightarrow>
     (\<forall>oxr. GetObservedCompositeResource req = Inr oxr \<longrightarrow> xr_Resource oxr \<noteq> None) \<and>
     (\<forall>dxr. GetDesiredCompositeResource req = Inr dxr \<longrightarrow>
        xr_Resource dxr \<noteq> None \<and> xr_ConnectionDetails dxr \<noteq> None) \<and>
     (\<forall>desired. GetDesiredComposedResources req = Inr desired \<longrightarrow> non_nil desired \<and> wf_gomap desired)"

lemma set_param_frame [simp]:
  "spec_Resources (Spec (set_param k r i)) = spec_Resources (Spec i)"
  "Target (Spec (set_param k r i)) = Target (Spec i)"
  "Source (Spec (set_param k r i)) = Source (Spec i)"
  "Params (Spec (set_param k r i)) = map_option (AList.update k r) (Params (Spec i))"
  by (simp_all add: set_param_def)

lemma apply_defaults_frame [simp]:
  "spec_Resources (Spec (apply_defaults d deps creds i)) = spec_Resources (Spec i)"
  "Target (Spec (apply_defaults d deps creds i)) =
     (if Target (Spec i) = [] then Default else Target (Spec i))"
  "Params (Spec (apply_defaults d deps creds i)) =
     Some (case Params (Spec i) of None \<Rightarrow> [] | Some m \<Rightarrow> m)"
  by (simp_all add: apply_defaults_def Let_def split: option.split)

lemma Validate_frame:
  assumes "Validate i = Inr j"
  shows "spec_Resources (Spec j) = spec_Resources (Spec i) \<and>
    Target (Spec j) = effective_target (Target (Spec i)) \<and>
    (Target (Spec j) = PatchResources \<longrightarrow> (\<forall>r \<in> set (spec_Resources (Spec i)). Base r \<noteq> None))"
proof -
  have j: "j = set_Target (effective_target (Target (Spec i))) i" using assms by (rule Validate_InrD)
  moreover have "acceptable j" using assms by (rule Validate_InrD)
  ultimately show ?thesis by (auto simp: acceptable_def complete_resource_def)
qed

lemma prepare_Inr:
  assumes "prepare K L C req i1 = Inr (i2, oxr, dxr, desired)"
  shows "spec_Resources (Spec i2) = spec_Resources (Spec i1)"
    and "Target (Spec i2) = effective_target (Target (Spec i1))"
    and "Target (Spec i2) = PatchResources \<Longrightarrow>
      \<forall>r \<in> set (spec_Resources (Spec i2)). Base r \<noteq> None"
    and "GetObservedCompositeResource req = Inr oxr" and "xr_Resource oxr \<noteq> None"
    and "\<exists>dxr0 d0 d. GetDesiredCompositeResource req = Inr dxr0 \<and> xr_Resource dxr0 = Some d0 \<and>
      dxr = dxr0\<lparr>xr_Resource := Some d\<rparr>"
    and "GetDesiredComposedResources req = Inr desired"
  using assms
  by (auto simp: prepare_def result_simps Let_def acceptable_def complete_resource_def
      split: option.splits dest!: Validate_frame)

lemma prepare_panic:
  assumes "sound_request req"
  shows "prepare K L C req i1 \<noteq> Inl (Panic p)"
  using assms
  by (auto simp: prepare_def result_simps Let_def sound_request_def split: option.splits)

section \<open>Panics\<close>

lemma base_loop_panic:
  "loop (base_step C) acc rs = Inl (Panic p) \<Longrightarrow> p = NilDereference \<and> (\<exists>r \<in> set rs. Base r = None)"
proof (induction rs arbitrary: acc)
  case (Cons r rs)
  have "p = NilDereference \<and> Base r = None" if "base_step C acc r = Inl (Panic p)"
    using that by (auto simp: base_step_def result_simps split: option.splits)
  with Cons show ?case by (auto simp: result_simps)
qed simp

lemma wrap_failure_panic: "wrap_failure msg r = Inl (Panic p) \<longleftrightarrow> r = Inl (Panic p)"
  by (cases "(msg, r)" rule: wrap_failure.cases) auto

lemma wrap_failure_Inr [result_simps]: "wrap_failure msg r = Inr x \<longleftrightarrow> r = Inr x"
  by (cases "(msg, r)" rule: wrap_failure.cases) auto

lemma process_panic:
  assumes "xr_Resource oxr \<noteq> None" and "xr_Resource dxr \<noteq> None" and "xr_ConnectionDetails dxr \<noteq> None"
    and "non_nil desired" and "wf_gomap desired"
    and "process K C i oxr dxr desired out = Inl (Panic p)"
  shows "p = BadTypeAssertion \<and> (\<exists>docs b v w. SplitDocuments C out = Inr docs \<and> b \<in> set docs \<and>
      UnmarshalYaml C b = Inr v \<and> normalizeMap v = Inr w \<and> w \<noteq> GNil \<and> (\<forall>m. w \<noteq> GMap m)) \<or>
    p = NilDereference \<and> (\<exists>r \<in> set (spec_Resources (Spec i)). Base r = None)"
proof -
  let ?s = "\<lparr>ps_dxr = dxr, ps_desired = desired, ps_extraResources = [], ps_requiredResources = [],
    ps_conditions = [], ps_events = [], ps_contextData = []\<rparr>"
  have "ProcessResources K oxr ?s t rs opts \<noteq> Inl (Panic p)" for t rs opts
    by (rule process_no_panic) (use assms(1-5) in \<open>simp_all add: writable_def\<close>)
  with assms(6) have "DataResourcesFromYaml (SplitDocuments C) (UnmarshalYaml C) out = Inl (Panic p) \<or>
      loop (base_step C) [] (spec_Resources (Spec i)) = Inl (Panic p)"
    by (auto simp: process_def result_simps wrap_failure_panic)
  then show ?thesis
    using DataResourcesFromYaml_panic [of "SplitDocuments C" "UnmarshalYaml C" out p]
      base_loop_panic [of C "[]" "spec_Resources (Spec i)" p] by blast
qed

section \<open>The cache inside the function\<close>

lemma cached_output_None: "cached_output hash g t None key = (g key, None)"
  by (simp add: cached_output_def split: sum.split)

text \<open>The output of a call is the one the cache holds, or else the rendered one.\<close>

lemma cached_output_Inr:
  "cached_output hash g t cache key = (Inr out, cache') \<Longrightarrow>
   case fst (lookup hash (fst t) cache key) of Some cached \<Rightarrow> out = cached | None \<Rightarrow> g key = Inr out"
  by (auto simp: cached_output_def split: prod.splits option.splits sum.splits)

lemma cached_output_sound:
  assumes "holds_only hash known f cache" and "key \<in> known" and "f key = g key"
    and "cached_output hash g t cache key = (r, cache')"
  shows "r = g key \<and> holds_only hash known f cache'"
proof -
  have "cached_output hash g t cache key = cached_output hash f t cache key"
    unfolding cached_output_def assms(3) ..
  with assms render_cache.memo_transparent [of hash known f cache key t r cache']
  show ?thesis by (simp add: cached_output_memo)
qed

text \<open>One call with a cache that holds only results of rendering is a call without cache.\<close>

lemma RunFunction_cache_step:
  assumes "holds_only hash known f cache"
    and "\<And>i i2 q. GetInput req = Inr i \<Longrightarrow>
      prepare K L C req (apply_defaults (defaultSource G) (fn_dependencies G) (CredentialData req) i) =
        Inr (i2, q) \<Longrightarrow>
      \<exists>key \<in> known. MarshalInput L i2 = Inr key \<and> f key = render L i2"
  shows "case RunFunction G hash K L C R t admitted req rsp cache oci of
      Inl p \<Rightarrow> RunFunction G hash K L C R t admitted req rsp None oci = Inl p
    | Inr (r, cache', oci') \<Rightarrow>
        RunFunction G hash K L C R t admitted req rsp None oci = Inr (r, None, oci') \<and>
        holds_only hash known f cache'"
proof (cases "GetInput req")
  case (Inr i)
  define i1 where "i1 = apply_defaults (defaultSource G) (fn_dependencies G) (CredentialData req) i"
  show ?thesis
  proof (cases "prepare K L C req i1")
    case prep: (Inr q)
    obtain i2 oxr dxr desired where q: "q = (i2, oxr, dxr, desired)" by (cases q)
    have off: "cache_key L None i2 = Inr []" by (simp add: cache_key_def cache_enabled_def)
    have "\<exists>key cache'. cache_key L cache i2 = Inr key \<and> holds_only hash known f cache' \<and>
        cached_output hash (\<lambda>_. render L i2) (t_lookup t, t_store t) cache key = (render L i2, cache')"
    proof (cases cache)
      case None
      then show ?thesis
        using off by (simp add: cached_output_None holds_only_def)
    next
      case (Some c)
      obtain key where k: "key \<in> known" "MarshalInput L i2 = Inr key" "f key = render L i2"
        using assms(2) [OF Inr, of i2] prep q by (auto simp: i1_def)
      obtain r cache' where "cached_output hash (\<lambda>_. render L i2) (t_lookup t, t_store t) cache key = (r, cache')"
        by fastforce
      with cached_output_sound [OF assms(1) k(1), of "\<lambda>_. render L i2" "(t_lookup t, t_store t)" r cache'] k Some
      show ?thesis by (simp add: cache_key_def cache_enabled_def renderKey_def)
    qed
    then show ?thesis
      using assms(1) Inr prep q off
      by (auto simp: RunFunction_def Let_def i1_def cached_output_None
          split: sum.split failure.split prod.split)
  qed (use assms(1) Inr in \<open>auto simp: RunFunction_def Let_def i1_def split: failure.split\<close>)
qed (use assms(1) in \<open>simp add: RunFunction_def\<close>)

section \<open>The desired state of the response\<close>

definition responder_laws :: "'d responder \<Rightarrow> bool" where
  "responder_laws R \<longleftrightarrow>
     (\<forall>rsp e. Desired (Fatal R rsp e) = Desired rsp) \<and>
     (\<forall>rsp k v. Desired (SetContextKey R rsp k v) = Desired rsp)"

lemma SetConditions_desired:
  assumes "responder_laws R"
  shows "Desired (fst (SetConditions sys (Fatal R) rsp cs)) = Desired rsp"
proof -
  have "Desired (fst (set_conditions_loop sys (Fatal R) rsp seen cs)) = Desired rsp" for seen
    using assms by (induction cs arbitrary: rsp seen) (auto simp: responder_laws_def Let_def)
  then show ?thesis by (simp add: SetConditions_def)
qed

lemma SetEvents_desired:
  assumes "responder_laws R"
  shows "Desired (fst (SetEvents (Fatal R) rsp es)) = Desired rsp"
  using assms by (induction es arbitrary: rsp) (auto simp: responder_laws_def split: sum.split)

lemma respond_context_desired:
  assumes "responder_laws R"
  shows "Desired (fst (respond_context K C R ctx rsp val)) = Desired rsp"
proof -
  have "Desired (fst (set_context_keys C R rsp m)) = Desired rsp" for m
    using assms by (induction C R rsp m rule: set_context_keys.induct)
      (auto simp: responder_laws_def split: sum.split)
  then show ?thesis
    using assms by (auto simp: respond_context_def responder_laws_def split: sum.split)
qed

lemma respond_desired_cases:
  assumes "responder_laws R"
  shows "Desired (respond_desired R rsp s) = Desired rsp \<or>
    (\<exists>rsp'. SetDesiredCompositeResource R rsp (ps_dxr s) = Inr rsp' \<and>
       (SetDesiredComposedResources R rsp' (ps_desired s) = Inr (respond_desired R rsp s) \<or>
        (\<exists>e. SetDesiredComposedResources R rsp' (ps_desired s) = Inl e \<and>
             respond_desired R rsp s = Fatal R rsp' (Wrapped ''cannot set desired composed resources'' e))))"
  using assms by (auto simp: respond_desired_def responder_laws_def split: sum.splits)

lemma respond_cases:
  assumes "responder_laws R"
  shows "Desired (respond K C R ctx rsp s) = Desired rsp \<or>
    (\<exists>rsp1. Desired rsp1 = Desired rsp \<and> respond K C R ctx rsp s = respond_desired R rsp1 s)"
proof -
  obtain rsp2 err2 where 2: "(if ps_conditions s \<noteq> []
      then SetConditions (IsSystemCondition R) (Fatal R) (respond_requirements rsp s) (ps_conditions s)
      else (respond_requirements rsp s, None)) = (rsp2, err2)" by fastforce
  obtain rsp3 err3 where 3: "(if ps_events s \<noteq> [] then SetEvents (Fatal R) rsp2 (ps_events s)
      else (rsp2, None)) = (rsp3, err3)" by fastforce
  obtain rsp4 ok where 4: "respond_context K C R ctx rsp3 (ps_contextData s) = (rsp4, ok)" by fastforce
  have "Desired (respond_requirements rsp s) = Desired rsp" by (simp add: respond_requirements_def)
  then have d2: "Desired rsp2 = Desired rsp"
    using 2 SetConditions_desired [OF assms, of "IsSystemCondition R" "respond_requirements rsp s"
        "ps_conditions s"] by (auto split: if_splits)
  then have d3: "Desired rsp3 = Desired rsp"
    using 3 SetEvents_desired [OF assms, of rsp2 "ps_events s"] by (auto split: if_splits)
  then have d4: "Desired rsp4 = Desired rsp"
    using 4 respond_context_desired [OF assms, of K C ctx rsp3 "ps_contextData s"] by simp
  have "respond K C R ctx rsp s =
      (if err2 \<noteq> None then rsp2 else if err3 \<noteq> None then rsp3
       else if \<not> ok then rsp4 else respond_desired R rsp4 s)"
    unfolding respond_def Let_def 2 prod.case 3 4 ..
  with d2 d3 d4 show ?thesis by auto
qed

section \<open>An example call\<close>

definition example_request :: "KCLInput \<Rightarrow> unit request" where
  "example_request i =
     \<lparr>GetInput = Inr i, CredentialData = None, GetObservedCompositeResource = Inr example_oxr,
      GetDesiredCompositeResource = Inr (ps_dxr example_state), GetDesiredComposedResources = Inr [],
      GetObservedComposedResources = Inr (), ContextJSON = Inr ''{}'', GetExtraResources = Inr (),
      GetRequiredResources = Inr (), ContextMap = []\<rparr>"

text \<open>Every output is one document with one composed object.\<close>

definition example_codec :: "unit codec" where
  "example_codec =
     \<lparr>MarshalObject = (\<lambda>_. Inr ''{}''), UnmarshalObject = (\<lambda>_. Inr (Some [])), MarshalDesired = (\<lambda>_. Inr ''{}''),
      MarshalResources = (\<lambda>_. Inr ''{}''), SplitDocuments = (\<lambda>s. Inr [s]),
      UnmarshalYaml = (\<lambda>_. Inr (GAnyMap [(GString ''kind'', GString ''Bucket''),
        (GString ''metadata'', GAnyMap [(GString ''name'', GString ''a'')])])), SetAPIVersion = (\<lambda>u _. u), SetKind = (\<lambda>u _. u), NewValue = Inr\<rparr>"

definition example_responder :: "(obj option \<times> string list) responder" where
  "example_responder =
     \<lparr>Fatal = (\<lambda>rsp e. rsp\<lparr>Results := Results rsp @
        [\<lparr>r_Severity = SEVERITY_FATAL, r_Message = [], r_Reason = None, r_Target = None\<rparr>]\<rparr>),
      IsSystemCondition = (\<lambda>_. False),
      SetContextKey = (\<lambda>rsp k v. rsp\<lparr>Context := AList.update k v (Context rsp)\<rparr>),
      SetDesiredCompositeResource = (\<lambda>rsp c. Inr (rsp\<lparr>Desired := (xr_Resource c, snd (Desired rsp))\<rparr>)),
      SetDesiredComposedResources = (\<lambda>rsp d. Inr (rsp\<lparr>Desired := (fst (Desired rsp), map fst d)\<rparr>))\<rparr>"

definition example_globals :: globals where
  "example_globals = \<lparr>defaultSource = [], fn_dependencies = []\<rparr>"

definition example_clock :: clock where
  "example_clock = \<lparr>t_oci = (0, 0), t_lookup = 0, t_store = 0\<rparr>"

definition example_start :: "(obj option \<times> string list) Response" where
  "example_start = \<lparr>Conditions = [], Results = [], Requirements = None, Context = [], Desired = (None, [])\<rparr>"

definition example_run ::
  "KCLInput \<Rightarrow> renderCache option \<Rightarrow>
   panic + ((obj option \<times> string list) run_result \<times> renderCache option \<times> oci_cache)"
where
  "example_run i cache =
     RunFunction example_globals id example_kube example_lib example_codec example_responder
       example_clock True (example_request i) example_start cache
       \<lparr>ociCacheCreated = None, ociGeneration = 0\<rparr>"

definition example_default :: "InputResource list \<Rightarrow> KCLInput" where
  "example_default rs = example_input Default rs"

lemmas example_call_defs = example_request_def example_codec_def example_responder_def
  example_globals_def example_clock_def example_start_def example_default_def

lemma example_sound: "sound_request (example_request i)"
  by (simp add: sound_request_def example_request_def example_oxr_def example_state_def non_nil_def)

lemma example_responder_laws: "responder_laws example_responder"
  by (simp add: responder_laws_def example_responder_def)

lemma example_data:
  "DataResourcesFromYaml (SplitDocuments example_codec) (UnmarshalYaml example_codec) out =
     Inr [example_object ''Bucket'' ''a'']"
  by (simp add: DataResourcesFromYaml_def document_step_def document_object_def example_codec_def
      example_object_def)

lemma example_params: "\<exists>b. paramsJSON example_lib i = Inr b"
  by (subst paramsJSON_def, subst params_entries_result [where json = "\<lambda>k. ''\"'' @ k @ ''\"''"])
     (simp_all add: example_lib_def)

lemma example_render:
  assumes "Source (Spec i) = ''items = []''" and "Dependencies (Spec i) = []"
    and "\<not> Vendor (Config (Spec i))"
  shows "render example_lib i = Inr ''items = []''"
proof -
  obtain b where b: "paramsJSON example_lib i = Inr b" using example_params by blast
  have "kclArguments example_lib i \<noteq> Inl e" for e
    by (simp add: kclArguments_def b envJSON_def) (simp add: example_lib_def)
  then obtain args where "kclArguments example_lib i = Inr args"
    by (cases "kclArguments example_lib i") auto
  moreover have "isInlineSource example_lib ''items = []''"
    by (simp add: isInlineSource_def example_lib_def has_prefix_def)
  ultimately have "renderInline example_lib i = Inr (Some ''items = []'')"
    using assms
    by (simp add: renderInline_def dependency_list_def)
       (simp add: example_lib_def inline_options_def)
  then show ?thesis by (simp add: render_def)
qed

text \<open>The input as the call prepares it.\<close>

definition example_prepared :: "InputResource list \<Rightarrow> KCLInput" where
  "example_prepared rs =
     (let e = \<lparr>Raw = ''{}''\<rparr>
      in (example_default rs)\<lparr>APIVersion := ''krm'', Kind := ''KCLRun'',
        Spec := (Spec (example_default rs))\<lparr>Params := Some
          [(''oxr'', e), (''dxr'', e), (''dcds'', e), (''ocds'', e), (''ctx'', e),
           (''extraResources'', e), (''requiredResources'', e)]\<rparr>\<rparr>)"

lemma example_prepare:
  "prepare example_kube example_lib example_codec (example_request (example_default rs))
     (apply_defaults (defaultSource example_globals) (fn_dependencies example_globals)
        (CredentialData (example_request (example_default rs))) (example_default rs)) =
   Inr (example_prepared rs, example_oxr, ps_dxr example_state, [])"
proof -
  have set: "Default \<noteq> []" by (simp add: Default_def)
  then have valid: "Validate (apply_defaults [] [] None (example_default rs)) =
      Inr (apply_defaults [] [] None (example_default rs))"
    by (simp add: Validate_def example_default_def example_input_defs apply_defaults_def Let_def)
  show ?thesis
    using set by (simp add: prepare_def valid example_request_def example_globals_def Let_def)
       (simp add: example_oxr_def example_state_def example_codec_def UnstructuredToRawExtension_def
         ObjToRawExtension_def JsonByteToRawExtension_def JsonByteToUnstructured_def
         set_param_def apply_defaults_def credentials_from_def example_prepared_def
         example_default_def example_input_defs example_lib_def Let_def)
qed

lemma example_prepared_simps [simp]:
  "Source (Spec (example_prepared rs)) = ''items = []''"
  "Dependencies (Spec (example_prepared rs)) = []"
  "Vendor (Config (Spec (example_prepared rs))) = False"
  "spec_Resources (Spec (example_prepared rs)) = rs"
  "Target (Spec (example_prepared rs)) = Default"
  by (simp_all add: example_prepared_def example_default_def example_input_defs Let_def)

lemma example_run_eq:
  "example_run (example_default rs) None =
     (case process example_kube example_codec (example_prepared rs) example_oxr (ps_dxr example_state) []
         ''items = []'' of
        Inl (Panic p) \<Rightarrow> Inl p
      | Inl (Error e) \<Rightarrow> Inr (Responded (Fatal example_responder example_start e), None,
          \<lparr>ociCacheCreated = None, ociGeneration = 0\<rparr>)
      | Inr (s, result) \<Rightarrow> Inr (Responded (respond example_kube example_codec example_responder []
          example_start s), None, \<lparr>ociCacheCreated = None, ociGeneration = 0\<rparr>))"
proof -
  have get: "GetInput (example_request i) = Inr i" "ContextMap (example_request i) = []" for i
    by (simp_all add: example_request_def)
  have inline: "\<not> has_prefix (Source (Spec (apply_defaults (defaultSource example_globals)
      (fn_dependencies example_globals) (CredentialData (example_request (example_default rs)))
      (example_default rs)))) ''oci://''"
    by (simp add: apply_defaults_def Let_def example_default_def example_input_defs has_prefix_def)
  have key: "cache_key example_lib None i = Inr []" for i
    by (simp add: cache_key_def cache_enabled_def)
  show ?thesis
    unfolding example_run_def RunFunction_def get Let_def sum.case example_prepare prod.case key
      cached_output_None if_not_P [OF inline]
    by (simp add: example_render)
qed

lemma example_process_nil:
  "process example_kube example_codec (example_prepared [example_resource n None]) example_oxr
     (ps_dxr example_state) [] out = Inl (Panic NilDereference)"
  by (simp add: process_def example_data base_step_def example_resource_def)

lemma example_run_default:
  "\<exists>rsp c oci. example_run (example_default []) None = Inr (Responded rsp, c, oci) \<and>
     Desired rsp \<noteq> Desired example_start"
proof -
  let ?x = "example_object ''XR'' ''xr''"
  have oxr: "xr_Resource example_oxr = Some ?x" by (simp add: example_oxr_def)
  let ?d = "[(''a'', composed_result example_kube (example_object ''Bucket'' ''a''))]"
  have "composed_step example_kube ([], newDuplicateChecker) (example_object ''Bucket'' ''a'') =
      Inr (?d, [''a'' \<mapsto> kind_and_name example_kube (example_object ''Bucket'' ''a'')])"
    by (simp add: composed_step_eq ready_composed_name [OF example_annotation_laws] newDuplicateChecker_def)
  moreover have "ps_desired example_state = []" by (simp add: example_state_def)
  ultimately have "default_step example_kube ?x (example_state, newDuplicateChecker) (example_object ''Bucket'' ''a'') =
      Inr (example_state\<lparr>ps_desired := ?d\<rparr>, [''a'' \<mapsto> kind_and_name example_kube (example_object ''Bucket'' ''a'')])"
    by (simp add: default_step_composed)
  then obtain s result where proc: "process example_kube example_codec (example_prepared []) example_oxr
      (ps_dxr example_state) [] ''items = []'' = Inr (s, result)"
    and s: "s = example_state\<lparr>ps_desired := ?d\<rparr>"
    by (simp add: process_def example_data ProcessResources_Default [OF oxr])
       (simp add: example_state_def)
  let ?rsp = "respond example_kube example_codec example_responder [] example_start s"
  have run: "example_run (example_default []) None =
      Inr (Responded ?rsp, None, \<lparr>ociCacheCreated = None, ociGeneration = 0\<rparr>)"
    by (simp add: example_run_eq proc)
  have "Desired ?rsp \<noteq> Desired example_start"
    by (simp add: respond_def s respond_context_def respond_desired_def Let_def)
       (simp add: example_responder_def example_start_def example_state_def)
  with run show ?thesis by blast
qed

section \<open>Properties\<close>

text \<open>C7: when the SDK delivers no nil pointers, \<open>RunFunction\<close> panics in two ways only. Either the
  output of the program, from the cache or rendered, has a document that decodes to a value that
  is neither null nor an object, and the panic is a failed type assertion; or the target is not
  \<open>PatchResources\<close> and the input lists a resource without base, which the validation lets pass,
  and the panic is a nil dereference.\<close>

theorem RunFunction_panics:
  assumes "sound_request req"
    and "RunFunction G hash K L C R t admitted req rsp cache oci = Inl p"
  shows "\<exists>i. GetInput req = Inr i \<and>
    (p = BadTypeAssertion \<and> (\<exists>i2 q key out docs b v w.
       prepare K L C req (apply_defaults (defaultSource G) (fn_dependencies G) (CredentialData req) i) =
         Inr (i2, q) \<and> cache_key L cache i2 = Inr key \<and>
       (case fst (lookup hash (t_lookup t) cache key) of
          Some cached \<Rightarrow> out = cached | None \<Rightarrow> render L i2 = Inr out) \<and>
       SplitDocuments C out = Inr docs \<and> b \<in> set docs \<and> UnmarshalYaml C b = Inr v \<and>
       normalizeMap v = Inr w \<and> w \<noteq> GNil \<and> (\<forall>m. w \<noteq> GMap m)) \<or>
     p = NilDereference \<and> (\<exists>r \<in> set (spec_Resources (Spec i)). Base r = None) \<and>
       Target (Spec i) \<noteq> PatchResources)"
proof -
  obtain i where i: "GetInput req = Inr i"
    using assms(2) by (auto simp: RunFunction_def split: if_splits sum.splits)
  define i1 where "i1 = apply_defaults (defaultSource G) (fn_dependencies G) (CredentialData req) i"
  obtain i2 oxr dxr desired key out c2 where prep: "prepare K L C req i1 = Inr (i2, oxr, dxr, desired)"
    and key: "cache_key L cache i2 = Inr key"
    and memo: "cached_output hash (\<lambda>_. render L i2) (t_lookup t, t_store t) cache key = (Inr out, c2)"
    and proc: "process K C i2 oxr dxr desired out = Inl (Panic p)"
    using assms(2) i prepare_panic [OF assms(1), of K L C i1 p]
    by (auto simp: RunFunction_def Let_def i1_def split: if_splits sum.splits prod.splits failure.splits)
  note inr = prepare_Inr [OF prep]
  have ptrs: "xr_Resource dxr \<noteq> None" "xr_ConnectionDetails dxr \<noteq> None" "non_nil desired" "wf_gomap desired"
    using inr(6,7) assms(1) by (auto simp: sound_request_def)
  have out: "case fst (lookup hash (t_lookup t) cache key) of
      Some cached \<Rightarrow> out = cached | None \<Rightarrow> render L i2 = Inr out"
    using cached_output_Inr [OF memo] by simp
  from process_panic [OF inr(5) ptrs proc] show ?thesis
  proof (elim disjE conjE)
    assume "\<exists>r \<in> set (spec_Resources (Spec i2)). Base r = None" "p = NilDereference"
    moreover from this have "Target (Spec i2) \<noteq> PatchResources" using inr(3) by force
    then have "Target (Spec i) \<noteq> PatchResources"
      using inr(2) by (auto simp: i1_def effective_target_def targets_def target_defs)
    ultimately show ?thesis using i inr(1) by (auto simp: i1_def)
  qed (use i prep [unfolded i1_def] key out in blast)
qed

theorem RunFunction_panics_witness:
  "example_run (example_default [example_resource ''a'' None]) None = Inl NilDereference \<and>
   (\<exists>i. GetInput (example_request (example_default [example_resource ''a'' None])) = Inr i \<and>
      (\<exists>r \<in> set (spec_Resources (Spec i)). Base r = None) \<and> Target (Spec i) \<noteq> PatchResources)"
proof -
  have run: "example_run (example_default [example_resource ''a'' None]) None = Inl NilDereference"
    using example_prepare [of "[example_resource ''a'' None]"]
    by (simp add: example_run_eq example_process_nil)
  with RunFunction_panics [OF example_sound run [unfolded example_run_def]] show ?thesis by auto
qed

text \<open>C9: the desired state of a response is all or nothing: it is the one the response started with,
  or it was set from one successful run of \<open>ProcessResources\<close>; only a failure of the last writer
  itself can leave the composite without the composed resources, with a fatal result.\<close>

theorem RunFunction_all_or_nothing:
  assumes "responder_laws R"
    and "RunFunction G hash K L C R t admitted req rsp cache oci = Inr (Responded rsp', cache', oci')"
  shows "Desired rsp' = Desired rsp \<or>
    (\<exists>i2 oxr dxr desired out s result rsp1 rsp2.
       process K C i2 oxr dxr desired out = Inr (s, result) \<and> Desired rsp1 = Desired rsp \<and>
       SetDesiredCompositeResource R rsp1 (ps_dxr s) = Inr rsp2 \<and>
       (SetDesiredComposedResources R rsp2 (ps_desired s) = Inr rsp' \<or>
        (\<exists>e. SetDesiredComposedResources R rsp2 (ps_desired s) = Inl e \<and>
             rsp' = Fatal R rsp2 (Wrapped ''cannot set desired composed resources'' e))))"
proof -
  from assms(2) consider e where "rsp' = Fatal R rsp e"
    | i2 oxr dxr desired out s result where "process K C i2 oxr dxr desired out = Inr (s, result)"
        "rsp' = respond K C R (ContextMap req) rsp s"
    by (auto simp: RunFunction_def Let_def split: if_splits sum.splits prod.splits failure.splits)
  then show ?thesis
  proof cases
    case 1
    with assms(1) show ?thesis by (simp add: responder_laws_def)
  next
    case 2
    from respond_cases [OF assms(1), of K C "ContextMap req" rsp s] show ?thesis
    proof (elim disjE exE conjE)
      fix rsp1 assume r: "Desired rsp1 = Desired rsp"
        "respond K C R (ContextMap req) rsp s = respond_desired R rsp1 s"
      with respond_desired_cases [OF assms(1), of rsp1 s] 2 show ?thesis by metis
    qed (simp add: 2)
  qed
qed

theorem RunFunction_all_or_nothing_witness:
  "\<exists>rsp c oci. example_run (example_default []) None = Inr (Responded rsp, c, oci) \<and>
     (\<exists>i2 oxr dxr desired out s result rsp1 rsp2.
        process example_kube example_codec i2 oxr dxr desired out = Inr (s, result) \<and>
        SetDesiredCompositeResource example_responder rsp1 (ps_dxr s) = Inr rsp2)"
proof -
  from example_run_default obtain rsp c oci where run: "example_run (example_default []) None = Inr (Responded rsp, c, oci)"
    and changed: "Desired rsp \<noteq> Desired example_start" by blast
  with RunFunction_all_or_nothing [OF example_responder_laws run [unfolded example_run_def]]
  show ?thesis by blast
qed

end
