(* ===== verification/End_To_End.thy ===== *)
theory End_To_End
  imports Run_Function
begin

text \<open>
  \<open>RunFunction\<close> end to end: the parameters a program gets to see, the response it ends with, for the
  default target the desired resources of the response in terms of the request and of what the
  program printed, and sequences of calls that share a render cache. The lemmas compose those of the
  components; nothing new is modelled here.
\<close>

section \<open>The parameters of the program\<close>

definition reserved_params :: "string set" where
  "reserved_params = {''oxr'', ''dxr'', ''dcds'', ''ocds'', ''ctx'', ''extraResources'', ''requiredResources''}"

lemma Validate_Params: "Validate i = Inr j \<Longrightarrow> Params (Spec j) = Params (Spec i)"
  using Validate_InrD(1) by fastforce

section \<open>The stages of a call that writes the desired state\<close>

lemma RunFunction_stages:
  assumes "responder_laws R" and "GetInput req = Inr i"
    and "RunFunction G hash K L C R t admitted req rsp cache oci = Inr (Responded rsp', cache', oci')"
    and "Desired rsp' \<noteq> Desired rsp"
  shows "\<exists>i2 oxr dxr desired key out s result rsp1 rsp2.
    prepare K L C req (apply_defaults (defaultSource G) (fn_dependencies G) (CredentialData req) i) =
      Inr (i2, oxr, dxr, desired) \<and> cache_key L cache i2 = Inr key \<and>
    (case fst (lookup hash (t_lookup t) cache key) of
       Some cached \<Rightarrow> out = cached | None \<Rightarrow> render L i2 = Inr out) \<and>
    process K C i2 oxr dxr desired out = Inr (s, result) \<and>
    SetDesiredCompositeResource R rsp1 (ps_dxr s) = Inr rsp2 \<and>
    (SetDesiredComposedResources R rsp2 (ps_desired s) = Inr rsp' \<or>
     (\<exists>e. SetDesiredComposedResources R rsp2 (ps_desired s) = Inl e \<and>
          rsp' = Fatal R rsp2 (Wrapped ''cannot set desired composed resources'' e)))"
proof -
  have fatal: "Desired (Fatal R rsp e) = Desired rsp" for e
    using assms(1) by (simp add: responder_laws_def)
  obtain i2 oxr dxr desired key out c2 s result where
    prep: "prepare K L C req (apply_defaults (defaultSource G) (fn_dependencies G) (CredentialData req) i) =
      Inr (i2, oxr, dxr, desired)" "cache_key L cache i2 = Inr key"
    and memo: "cached_output hash (\<lambda>_. render L i2) (t_lookup t, t_store t) cache key = (Inr out, c2)"
    and proc: "process K C i2 oxr dxr desired out = Inr (s, result)"
    and rsp': "rsp' = respond K C R (ContextMap req) rsp s"
    using assms(2-4)
    by (auto simp: RunFunction_def Let_def fatal
        split: if_splits sum.splits prod.splits failure.splits)
  note out = cached_output_Inr [OF memo] proc
  from respond_cases [OF assms(1), of K C "ContextMap req" rsp s] assms(4) rsp' obtain rsp1 where
    "Desired rsp1 = Desired rsp" "respond K C R (ContextMap req) rsp s = respond_desired R rsp1 s" by metis
  with respond_desired_cases [OF assms(1), of rsp1 s] assms(4) rsp' obtain rsp2 where
    set: "SetDesiredCompositeResource R rsp1 (ps_dxr s) = Inr rsp2"
      "SetDesiredComposedResources R rsp2 (ps_desired s) = Inr rsp' \<or>
       (\<exists>e. SetDesiredComposedResources R rsp2 (ps_desired s) = Inl e \<and>
          rsp' = Fatal R rsp2 (Wrapped ''cannot set desired composed resources'' e))" by metis
  show ?thesis
    by (intro exI [of _ i2] exI [of _ oxr] exI [of _ dxr] exI [of _ desired] exI [of _ key]
        exI [of _ out] exI [of _ s] exI [of _ result] exI [of _ rsp1] exI [of _ rsp2] conjI)
       (use prep out set in simp_all)
qed

text \<open>The default target inside \<open>process\<close>.\<close>

lemma process_default:
  assumes "annotation_laws K" and "Target (Spec i) = Default" and "xr_Resource oxr = Some x"
    and "process K C i oxr dxr desired out = Inr (s, result)"
  shows "\<exists>data. DataResourcesFromYaml (SplitDocuments C) (UnmarshalYaml C) out = Inr data \<and>
    (\<forall>u \<in> set data. is_composed K x u \<longrightarrow> ready_ok K u) \<and>
    distinct (map (resource_name K) (filter (is_composed K x) data)) \<and>
    (\<forall>n. map_of (ps_desired s) n =
       (case find (\<lambda>u. resource_name K u = n) (filter (is_composed K x) data) of
          None \<Rightarrow> map_of desired n
        | Some u \<Rightarrow> Some (composed_result K u)))"
proof -
  let ?s = "\<lparr>ps_dxr = dxr, ps_desired = desired, ps_extraResources = [], ps_requiredResources = [],
    ps_conditions = [], ps_events = [], ps_contextData = []\<rparr>"
  obtain data rs where data: "DataResourcesFromYaml (SplitDocuments C) (UnmarshalYaml C) out = Inr data"
    and run: "ProcessResources K oxr ?s Default rs \<lparr>Basename = input_Name i, Data = data, Overwrite = True\<rparr> =
      Inr (s, result)"
    using assms(2,4) by (auto simp: process_def result_simps)
  then obtain c where loop: "loop (default_step K x) (?s, newDuplicateChecker) data = Inr (s, c)"
    by (auto simp: ProcessResources_Default [OF assms(3)] result_simps)
  from default_loop_splits [OF loop, of desired newDuplicateChecker]
  have half: "loop (composed_step K) (desired, newDuplicateChecker) (filter (is_composed K x) data) =
      Inr (ps_desired s, c)" by simp
  then have "is_ok (loop (composed_step K) (desired, newDuplicateChecker) (filter (is_composed K x) data))"
    by simp
  then have "(\<forall>u \<in> set data. is_composed K x u \<longrightarrow> ready_ok K u) \<and>
      distinct (map (resource_name K) (filter (is_composed K x) data))"
    unfolding composed_loop_ok [OF assms(1)] by auto
  with data composed_loop_result [OF assms(1) half] show ?thesis by blast
qed

section \<open>A sequence of calls\<close>

text \<open>The responses of a process that serves calls one after the other, or the panic that ends it.\<close>

fun serve_all ::
  "globals \<Rightarrow> (string \<Rightarrow> string) \<Rightarrow> kube \<Rightarrow> 'n kcl_lib \<Rightarrow> 'x codec \<Rightarrow> 'd responder \<Rightarrow>
   (clock \<times> bool \<times> 'x request \<times> 'd Response) list \<Rightarrow> renderCache option \<Rightarrow> oci_cache \<Rightarrow>
   panic + 'd run_result list"
where
  "serve_all G hash K L C R [] cache oci = Inr []"
| "serve_all G hash K L C R ((t, admitted, req, rsp) # calls) cache oci =
     (case RunFunction G hash K L C R t admitted req rsp cache oci of
        Inl p \<Rightarrow> Inl p
      | Inr (r, cache', oci') \<Rightarrow>
          bind_result (serve_all G hash K L C R calls cache' oci') (\<lambda>rs. Inr (r # rs)))"

text \<open>The key of the cache determines the rendering.\<close>

definition key_determines ::
  "globals \<Rightarrow> kube \<Rightarrow> 'n kcl_lib \<Rightarrow> 'x codec \<Rightarrow> string set \<Rightarrow> (string \<Rightarrow> go_error + string) \<Rightarrow>
   'x request \<Rightarrow> bool"
where
  "key_determines G K L C known f req \<longleftrightarrow>
     (\<forall>i i2 q. GetInput req = Inr i \<longrightarrow>
        prepare K L C req (apply_defaults (defaultSource G) (fn_dependencies G) (CredentialData req) i) =
          Inr (i2, q) \<longrightarrow>
        (\<exists>key \<in> known. MarshalInput L i2 = Inr key \<and> f key = render L i2))"

lemma serve_all_step:
  assumes "holds_only hash known f cache"
    and "\<forall>c \<in> set calls. key_determines G K L C known f (fst (snd (snd c)))"
  shows "serve_all G hash K L C R calls cache oci = serve_all G hash K L C R calls None oci"
  using assms
proof (induction calls arbitrary: cache oci)
  case (Cons c calls)
  obtain t admitted req rsp where c: "c = (t, admitted, req, rsp)" by (cases c)
  have kd: "key_determines G K L C known f req" using Cons.prems(2) by (simp add: c)
  have key: "\<exists>key \<in> known. MarshalInput L i2 = Inr key \<and> f key = render L i2"
    if "GetInput req = Inr i" "prepare K L C req (apply_defaults (defaultSource G) (fn_dependencies G)
      (CredentialData req) i) = Inr (i2, q)" for i i2 q
    using kd that unfolding key_determines_def by blast
  have step: "case RunFunction G hash K L C R t admitted req rsp cache oci of
      Inl p \<Rightarrow> RunFunction G hash K L C R t admitted req rsp None oci = Inl p
    | Inr (r, cache', oci') \<Rightarrow>
        RunFunction G hash K L C R t admitted req rsp None oci = Inr (r, None, oci') \<and>
        holds_only hash known f cache'"
    by (rule RunFunction_cache_step [OF Cons.prems(1)]) (rule key)
  show ?case
  proof (cases "RunFunction G hash K L C R t admitted req rsp cache oci")
    case (Inr x)
    obtain r cache' oci' where x: "x = (r, cache', oci')" by (cases x)
    with step Inr have "RunFunction G hash K L C R t admitted req rsp None oci = Inr (r, None, oci')"
      and "holds_only hash known f cache'" by simp_all
    with Inr x Cons show ?thesis by (simp add: c)
  qed (use step in \<open>simp add: c\<close>)
qed simp

section \<open>The response as a whole\<close>

text \<open>What the writers of the SDK touch: one key of the context, and the desired state.\<close>

definition writer_laws :: "'d responder \<Rightarrow> bool" where
  "writer_laws R \<longleftrightarrow>
     (\<forall>rsp k v. SetContextKey R rsp k v = rsp\<lparr>Context := AList.update k v (Context rsp)\<rparr>) \<and>
     (\<forall>rsp c rsp'. SetDesiredCompositeResource R rsp c = Inr rsp' \<longrightarrow> (\<exists>d. rsp' = rsp\<lparr>Desired := d\<rparr>)) \<and>
     (\<forall>rsp m rsp'. SetDesiredComposedResources R rsp m = Inr rsp' \<longrightarrow> (\<exists>d. rsp' = rsp\<lparr>Desired := d\<rparr>))"

definition converted :: "'x codec \<Rightarrow> gval gomap \<Rightarrow> gval gomap \<Rightarrow> bool" where
  "converted C m vals \<longleftrightarrow> list_all2 (\<lambda>e e'. fst e' = fst e \<and> NewValue C (snd e) = Inr (snd e')) m vals"

lemma set_context_keys_converted:
  assumes "writer_laws R" and "converted C m vals"
  shows "set_context_keys C R rsp m = (rsp\<lparr>Context := overlay (Context rsp) vals\<rparr>, True)"
  using assms(2) unfolding converted_def
proof (induction arbitrary: rsp rule: list_all2_induct)
  case (Cons e m e' vals)
  obtain k v where e: "e = (k, v)" by (cases e)
  with Cons.hyps obtain v' where "e' = (k, v')" "NewValue C v = Inr v'" by (cases e') auto
  with e Cons.IH assms(1) show ?case by (simp add: writer_laws_def overlay_def)
qed (simp add: overlay_def)

lemma converted_keys: "converted C m vals \<Longrightarrow> map fst vals = map fst m"
  unfolding converted_def by (induction rule: list_all2_induct) simp_all

lemma respond_context_converted:
  assumes "writer_laws R"
    and "val \<noteq> [] \<Longrightarrow> mergoMerge K ctx val = Inr both \<and> wf_gomap both \<and> converted C both vals"
  shows "\<exists>c. respond_context K C R ctx rsp val = (rsp\<lparr>Context := c\<rparr>, True) \<and>
    map_of c = (if val = [] then map_of (Context rsp) else map_of (Context rsp) ++ map_of vals)"
proof (cases "val = []")
  case True
  then show ?thesis by (intro exI [of _ "Context rsp"]) (simp add: respond_context_def)
next
  case False
  then have m: "mergoMerge K ctx val = Inr both" "wf_gomap both" "converted C both vals"
    using assms(2) by simp_all
  then have "wf_gomap vals" using converted_keys [of C both vals] by (simp add: wf_gomap_def)
  with False m set_context_keys_converted [OF assms(1) m(3), of rsp] show ?thesis
    by (intro exI [of _ "overlay (Context rsp) vals"])
       (simp add: respond_context_def MergeContext_def map_of_overlay)
qed

section \<open>An example with a cache\<close>

text \<open>The call of \<open>example_run\<close> with a cache that holds its output already.\<close>

definition example_cache :: "renderCache option" where
  "example_cache = store id 0 (newRenderCache 2 0) ''items = []'' ''items = []''"

lemma example_cache_hit: "fst (lookup id 0 example_cache ''items = []'') = Some ''items = []''"
  by (simp add: example_cache_def newRenderCache_def store_def evict_room lookup_def
      expired_def Let_def)

lemma example_marshal: "MarshalInput example_lib (example_prepared []) = Inr ''items = []''"
  using example_prepared_simps(1) [of "[]"] by (simp add: example_lib_def del: example_prepared_simps)

lemma example_run_cached:
  "\<exists>rsp c oci. example_run (example_default []) example_cache = Inr (Responded rsp, c, oci) \<and>
     Desired rsp \<noteq> Desired example_start"
proof -
  let ?k = "''items = []''"
  have "holds_only id {?k} (\<lambda>_. Inr ?k :: go_error + string) (newRenderCache 2 0)"
    by (rule holds_only_new) simp
  then have holds: "holds_only id {?k} (\<lambda>_. Inr ?k :: go_error + string) example_cache"
    unfolding example_cache_def by (rule render_cache.put_keeps) simp_all
  have key: "\<exists>key \<in> {?k}. MarshalInput example_lib i2 = Inr key \<and> Inr ?k = render example_lib i2"
    if "GetInput (example_request (example_default [])) = Inr i"
      "prepare example_kube example_lib example_codec (example_request (example_default []))
         (apply_defaults (defaultSource example_globals) (fn_dependencies example_globals)
            (CredentialData (example_request (example_default []))) i) = Inr (i2, q)" for i i2 q
  proof -
    have "i = example_default []" using that(1) by (simp add: example_request_def)
    with that(2) example_prepare [of "[]"] have "i2 = example_prepared []" by simp
    then show ?thesis by (simp add: example_marshal example_render)
  qed
  let ?run = "RunFunction example_globals id example_kube example_lib example_codec example_responder
    example_clock True (example_request (example_default [])) example_start"
  let ?oci = "\<lparr>ociCacheCreated = None, ociGeneration = 0\<rparr>"
  have "case ?run example_cache ?oci of Inl p \<Rightarrow> ?run None ?oci = Inl p
    | Inr (r, cache', oci') \<Rightarrow> ?run None ?oci = Inr (r, None, oci') \<and>
        holds_only id {?k} (\<lambda>_. Inr ?k :: go_error + string) cache'"
    by (rule RunFunction_cache_step [OF holds]) (rule key)
  with example_run_default show ?thesis by (auto simp: example_run_def split: sum.splits)
qed

section \<open>Properties\<close>

text \<open>C8: a process that serves any sequence of calls with a render cache of any size and lifetime gives
  the same responses, and panics at the same call if it panics, as one without cache, as long as
  the key determines the rendering and SHA-256 has no collision among the keys.\<close>

theorem serve_all_cache_transparent:
  assumes "inj_on hash known"
    and "\<And>t admitted req rsp. (t, admitted, req, rsp) \<in> set calls \<Longrightarrow> key_determines G K L C known f req"
  shows "serve_all G hash K L C R calls (newRenderCache n lifetime) oci =
    serve_all G hash K L C R calls None oci"
  by (rule serve_all_step [OF holds_only_new [OF assms(1), of f]]) (use assms(2) in force)

theorem serve_all_cache_transparent_witness:
  "\<exists>calls. length calls = 2 \<and>
     serve_all example_globals id example_kube example_lib example_codec example_responder calls
       (newRenderCache 1 0) \<lparr>ociCacheCreated = None, ociGeneration = 0\<rparr> =
     serve_all example_globals id example_kube example_lib example_codec example_responder calls
       None \<lparr>ociCacheCreated = None, ociGeneration = 0\<rparr>"
proof -
  let ?i = "example_default []" and ?k = "''items = []''"
  let ?call = "(example_clock, True, example_request ?i, example_start)"
  note example_marshal
  moreover have "GetInput (example_request ?i) = Inr ?i" by (simp add: example_request_def)
  ultimately have "key_determines example_globals example_kube example_lib example_codec {?k}
      (\<lambda>_. Inr ?k) (example_request ?i)"
    unfolding key_determines_def using example_prepare [of "[]"] by (auto simp: example_render)
  then show ?thesis
    by (intro exI [of _ "[?call, ?call]"] conjI serve_all_cache_transparent [where known = "{?k}"]) auto
qed

text \<open>C10: when no condition is reserved, every event has a valid type, the context can be merged and
  converted, and the SDK accepts the desired state, the response gets the conditions, the results,
  the requirements if there are any, the merged context over its own, and then the desired state,
  and the order of these steps leaves each the other's part. All results, requirements and context
  values of the program reach the response; of its conditions those that are forced or the first
  of their type do, in order.\<close>

theorem respond_correct:
  assumes "writer_laws R"
    and "find (reserved (IsSystemCondition R)) (ps_conditions s) = None"
    and "list_all2 (\<lambda>er r. transformEvent er = Inr r) (ps_events s) rs"
    and "ps_contextData s \<noteq> [] \<Longrightarrow>
      mergoMerge K ctx (ps_contextData s) = Inr both \<and> wf_gomap both \<and> converted C both vals"
    and "\<And>rsp. \<exists>rsp1. SetDesiredCompositeResource R rsp (ps_dxr s) = Inr rsp1"
    and "\<And>rsp. \<exists>rsp1. SetDesiredComposedResources R rsp (ps_desired s) = Inr rsp1"
  shows "\<exists>rsp1 rsp2 d. respond K C R ctx rsp s = rsp2\<lparr>Desired := d\<rparr> \<and>
    SetDesiredCompositeResource R rsp1 (ps_dxr s) = Inr rsp2 \<and>
    SetDesiredComposedResources R rsp2 (ps_desired s) = Inr (respond K C R ctx rsp s) \<and>
    Conditions rsp2 = Conditions rsp @ map transformCondition (kept {} (ps_conditions s)) \<and>
    Results rsp2 = Results rsp @ rs \<and>
    Requirements rsp2 =
      (if ps_extraResources s = [] \<and> ps_requiredResources s = [] then Requirements rsp
       else Some (ps_extraResources s, ps_requiredResources s)) \<and>
    map_of (Context rsp2) =
      (if ps_contextData s = [] then map_of (Context rsp) else map_of (Context rsp) ++ map_of vals)"
proof -
  let ?rsp1 = "respond_requirements rsp s"
  let ?rsp2 = "?rsp1\<lparr>Conditions := Conditions ?rsp1 @ map transformCondition (kept {} (ps_conditions s))\<rparr>"
  let ?rsp3 = "?rsp2\<lparr>Results := Results ?rsp2 @ rs\<rparr>"
  have 2: "(if ps_conditions s \<noteq> []
      then SetConditions (IsSystemCondition R) (Fatal R) ?rsp1 (ps_conditions s) else (?rsp1, None)) =
      (?rsp2, None)"
    using assms(2) by (simp add: SetConditions_eq)
  have 3: "(if ps_events s \<noteq> [] then SetEvents (Fatal R) ?rsp2 (ps_events s) else (?rsp2, None)) =
      (?rsp3, None)"
    using assms(3) SetEvents_good [OF assms(3), of "Fatal R" ?rsp2 "[]"] by auto
  obtain c where 4: "respond_context K C R ctx ?rsp3 (ps_contextData s) = (?rsp3\<lparr>Context := c\<rparr>, True)"
    "map_of c = (if ps_contextData s = [] then map_of (Context ?rsp3)
       else map_of (Context ?rsp3) ++ map_of vals)"
    using respond_context_converted [OF assms(1,4), of ?rsp3] by blast
  have eq: "respond K C R ctx rsp s = respond_desired R (?rsp3\<lparr>Context := c\<rparr>) s"
    unfolding respond_def Let_def 2 prod.case 3 4(1) by simp
  obtain rsp2 where c2: "SetDesiredCompositeResource R (?rsp3\<lparr>Context := c\<rparr>) (ps_dxr s) = Inr rsp2"
    using assms(5) by blast
  moreover obtain rsp' where c3: "SetDesiredComposedResources R rsp2 (ps_desired s) = Inr rsp'"
    using assms(6) by blast
  moreover obtain d2 d where d: "rsp2 = ?rsp3\<lparr>Context := c\<rparr>\<lparr>Desired := d2\<rparr>" "rsp' = rsp2\<lparr>Desired := d\<rparr>"
    using assms(1) c2 c3 unfolding writer_laws_def by blast
  ultimately have "respond K C R ctx rsp s = rsp'" by (simp add: eq respond_desired_def)
  then show ?thesis
    using c2 c3 d 4(2)
    by (intro exI [of _ "?rsp3\<lparr>Context := c\<rparr>"] exI [of _ rsp2] exI [of _ d])
       (simp add: respond_requirements_def)
qed

theorem respond_correct_witness:
  "\<exists>r. transformEvent (example_event None ''done'') = Inr r \<and>
     (let rsp' = respond example_kube example_codec example_responder [(''old'', GInt 0)] example_start
        (example_state\<lparr>ps_events := [example_event None ''done''], ps_contextData := [(''new'', GInt 1)]\<rparr>)
      in Results rsp' = [r] \<and> map_of (Context rsp') ''old'' = Some (GInt 0) \<and>
         map_of (Context rsp') ''new'' = Some (GInt 1))"
proof -
  let ?s = "example_state\<lparr>ps_events := [example_event None ''done''], ps_contextData := [(''new'', GInt 1)]\<rparr>"
  let ?both = "[(''old'', GInt 0), (''new'', GInt 1)]"
  obtain r where r: "transformEvent (example_event None ''done'') = Inr r"
    by (simp add: transformEvent_def example_event_def Let_def)
  have laws: "writer_laws example_responder"
    by (auto simp: writer_laws_def example_responder_def)
  have find: "find (reserved (IsSystemCondition example_responder)) (ps_conditions ?s) = None"
    by (simp add: example_state_def)
  have events: "list_all2 (\<lambda>er r. transformEvent er = Inr r) (ps_events ?s) [r]"
    using r by simp
  have merge: "mergoMerge example_kube [(''old'', GInt 0)] (ps_contextData ?s) = Inr ?both \<and>
      wf_gomap ?both \<and> converted example_codec ?both ?both"
    by (simp add: example_kube_def overlay_def converted_def example_codec_def)
  have accepts: "\<exists>rsp1. SetDesiredCompositeResource example_responder rsp (ps_dxr ?s) = Inr rsp1"
    "\<exists>rsp1. SetDesiredComposedResources example_responder rsp (ps_desired ?s) = Inr rsp1" for rsp
    by (simp_all add: example_responder_def)
  from respond_correct [OF laws find events merge accepts, of example_start] r
  show ?thesis by (force simp: Let_def example_start_def)
qed

text \<open>C11: a call that gets past the validation hands the program the seven reserved parameters, made
  of the observed composite, the desired composite with the version and kind of the observed one,
  the desired and observed composed resources, the context, and the extra and required resources
  of the request, whatever the user wrote under these names, and every other parameter of the
  user unchanged.\<close>

theorem prepare_params:
  assumes "prepare K L C req i1 = Inr (i2, oxr, dxr, desired)" and "Params (Spec i1) = Some m"
  shows "\<exists>m2 p x dxr0 d0 d observed ctx extras required. Params (Spec i2) = Some m2 \<and>
    map_of m2 = map_of m ++ p \<and> dom p = reserved_params \<and> (wf_gomap m \<longrightarrow> wf_gomap m2) \<and>
    GetObservedCompositeResource req = Inr oxr \<and> xr_Resource oxr = Some x \<and>
    GetDesiredCompositeResource req = Inr dxr0 \<and> xr_Resource dxr0 = Some d0 \<and>
    d = SetKind C (SetAPIVersion C d0 (getAPIVersion K x)) (getKind K x) \<and>
    dxr = dxr0\<lparr>xr_Resource := Some d\<rparr> \<and>
    GetDesiredComposedResources req = Inr desired \<and> GetObservedComposedResources req = Inr observed \<and>
    ContextJSON req = Inr ctx \<and> GetExtraResources req = Inr extras \<and>
    GetRequiredResources req = Inr required \<and>
    UnstructuredToRawExtension (MarshalObject C) (Some (Some x)) = Inr (the (p ''oxr'')) \<and>
    UnstructuredToRawExtension (MarshalObject C) (Some (Some d)) = Inr (the (p ''dxr'')) \<and>
    ObjToRawExtension (MarshalDesired C) (Some desired) = Inr (the (p ''dcds'')) \<and>
    ObjToRawExtension (MarshalResources C) (Some observed) = Inr (the (p ''ocds'')) \<and>
    JsonByteToRawExtension (UnmarshalObject C) (MarshalObject C) ctx = Inr (the (p ''ctx'')) \<and>
    ObjToRawExtension (MarshalResources C) (Some extras) = Inr (the (p ''extraResources'')) \<and>
    ObjToRawExtension (MarshalResources C) (Some required) = Inr (the (p ''requiredResources''))"
proof -
  from assms(1) obtain j x dxr0 d0 d p1 p2 p3 observed p4 ctx p5 extras p6 required p7 where
    j: "Validate i1 = Inr j" and *:
    "GetDesiredComposedResources req = Inr desired" "GetObservedComposedResources req = Inr observed"
    "ContextJSON req = Inr ctx" "GetExtraResources req = Inr extras"
    "GetRequiredResources req = Inr required" "GetObservedCompositeResource req = Inr oxr"
    "xr_Resource oxr = Some x" "GetDesiredCompositeResource req = Inr dxr0" "xr_Resource dxr0 = Some d0"
    "d = SetKind C (SetAPIVersion C d0 (getAPIVersion K x)) (getKind K x)"
    "dxr = dxr0\<lparr>xr_Resource := Some d\<rparr>"
    "UnstructuredToRawExtension (MarshalObject C) (Some (Some x)) = Inr p1"
    "UnstructuredToRawExtension (MarshalObject C) (Some (Some d)) = Inr p2"
    "ObjToRawExtension (MarshalDesired C) (Some desired) = Inr p3"
    "ObjToRawExtension (MarshalResources C) (Some observed) = Inr p4"
    "JsonByteToRawExtension (UnmarshalObject C) (MarshalObject C) ctx = Inr p5"
    "ObjToRawExtension (MarshalResources C) (Some extras) = Inr p6"
    "ObjToRawExtension (MarshalResources C) (Some required) = Inr p7" and
    i2: "Params (Spec i2) = map_option (AList.update ''requiredResources'' p7 \<circ> AList.update ''extraResources'' p6 \<circ>
      AList.update ''ctx'' p5 \<circ> AList.update ''ocds'' p4 \<circ> AList.update ''dcds'' p3 \<circ>
      AList.update ''dxr'' p2 \<circ> AList.update ''oxr'' p1) (Params (Spec j))"
    by (auto simp: prepare_def result_simps Let_def comp_def option.map_comp split: option.splits)
  let ?p = "[''oxr'' \<mapsto> p1, ''dxr'' \<mapsto> p2, ''dcds'' \<mapsto> p3, ''ocds'' \<mapsto> p4, ''ctx'' \<mapsto> p5,
    ''extraResources'' \<mapsto> p6, ''requiredResources'' \<mapsto> p7]"
  let ?m2 = "AList.update ''requiredResources'' p7 (AList.update ''extraResources'' p6
      (AList.update ''ctx'' p5 (AList.update ''ocds'' p4 (AList.update ''dcds'' p3
      (AList.update ''dxr'' p2 (AList.update ''oxr'' p1 m))))))"
  have "Params (Spec i2) = Some ?m2"
    using i2 assms(2) Validate_Params [OF j] by simp
  moreover have "map_of ?m2 = map_of m ++ ?p" by (simp add: map_of_update)
  moreover have "dom ?p = reserved_params" by (auto simp: reserved_params_def)
  moreover have "wf_gomap m \<longrightarrow> wf_gomap ?m2" by (simp add: wf_gomap_update)
  ultimately show ?thesis
    by (intro exI [of _ ?m2] exI [of _ ?p] exI [of _ x] exI [of _ dxr0] exI [of _ d0] exI [of _ d] exI [of _ observed]
        exI [of _ ctx] exI [of _ extras] exI [of _ required]) (use * in simp)
qed

theorem prepare_params_witness:
  "\<exists>m2 p. Params (Spec (example_prepared [])) = Some m2 \<and> map_of m2 = p \<and> dom p = reserved_params \<and>
     ObjToRawExtension (MarshalDesired example_codec) (Some []) = Inr (the (p ''dcds''))"
proof -
  let ?i = "apply_defaults (defaultSource example_globals) (fn_dependencies example_globals)
    (CredentialData (example_request (example_default []))) (example_default [])"
  have "Params (Spec ?i) = Some []"
    by (simp add: example_default_def example_input_defs)
  from prepare_params [OF example_prepare this] show ?thesis by auto
qed

text \<open>C1: whenever a call with the default target changes the desired state of its response, with or
  without a render cache, the composed resources it sets are the ones desired so far, overlaid by
  the composed objects of the program's output: each under its resource name, without the two
  annotations of this function and with the readiness it asked for. Their names are pairwise
  different and their annotations valid. The output is the one the cache returns for the key of
  the prepared input, and on a miss the rendering of that input.\<close>

theorem RunFunction_default_desired:
  assumes "annotation_laws K" and "responder_laws R" and "GetInput req = Inr i"
    and "effective_target (Target (Spec i)) = Default"
    and "RunFunction G hash K L C R t admitted req rsp cache oci = Inr (Responded rsp', cache', oci')"
    and "Desired rsp' \<noteq> Desired rsp"
  shows "\<exists>i2 oxr dxr desired x key out data d rsp2.
    prepare K L C req (apply_defaults (defaultSource G) (fn_dependencies G) (CredentialData req) i) =
      Inr (i2, oxr, dxr, desired) \<and>
    GetDesiredComposedResources req = Inr desired \<and> GetObservedCompositeResource req = Inr oxr \<and>
    xr_Resource oxr = Some x \<and> cache_key L cache i2 = Inr key \<and>
    (case fst (lookup hash (t_lookup t) cache key) of
       Some cached \<Rightarrow> out = cached | None \<Rightarrow> render L i2 = Inr out) \<and>
    DataResourcesFromYaml (SplitDocuments C) (UnmarshalYaml C) out = Inr data \<and>
    (\<forall>u \<in> set data. is_composed K x u \<longrightarrow> ready_ok K u) \<and>
    distinct (map (resource_name K) (filter (is_composed K x) data)) \<and>
    (\<forall>n. map_of d n =
       (case find (\<lambda>u. resource_name K u = n) (filter (is_composed K x) data) of
          None \<Rightarrow> map_of desired n
        | Some u \<Rightarrow> Some (composed_result K u))) \<and>
    (SetDesiredComposedResources R rsp2 d = Inr rsp' \<or>
     (\<exists>e. SetDesiredComposedResources R rsp2 d = Inl e \<and>
          rsp' = Fatal R rsp2 (Wrapped ''cannot set desired composed resources'' e)))"
proof -
  from RunFunction_stages [OF assms(2,3,5,6)] obtain i2 oxr dxr desired key out s result rsp2 where
    prep: "prepare K L C req (apply_defaults (defaultSource G) (fn_dependencies G) (CredentialData req) i) =
      Inr (i2, oxr, dxr, desired)"
    and out: "cache_key L cache i2 = Inr key" "case fst (lookup hash (t_lookup t) cache key) of
       Some cached \<Rightarrow> out = cached | None \<Rightarrow> render L i2 = Inr out" and proc: "process K C i2 oxr dxr desired out = Inr (s, result)"
    and set: "SetDesiredComposedResources R rsp2 (ps_desired s) = Inr rsp' \<or>
     (\<exists>e. SetDesiredComposedResources R rsp2 (ps_desired s) = Inl e \<and>
          rsp' = Fatal R rsp2 (Wrapped ''cannot set desired composed resources'' e))" by blast
  note inr = prepare_Inr [OF prep]
  obtain x where x: "xr_Resource oxr = Some x" using inr(5) by blast
  have "Target (Spec i2) = Default"
    using inr(2) assms(4) by (auto simp: effective_target_def split: if_splits)
  from process_default [OF assms(1) this x proc] prep out set inr(4,7) x show ?thesis by blast
qed

theorem RunFunction_default_desired_witness:
  "\<exists>rsp c oci d rsp2. fst (lookup id 0 example_cache ''items = []'') = Some ''items = []'' \<and>
     example_run (example_default []) example_cache = Inr (Responded rsp, c, oci) \<and>
     SetDesiredComposedResources example_responder rsp2 d = Inr rsp \<and>
     map_of d ''a'' = Some (composed_result example_kube (example_object ''Bucket'' ''a'')) \<and>
     map_of d ''b'' = None"
proof -
  have get: "GetInput (example_request (example_default [])) = Inr (example_default [])"
    by (simp add: example_request_def)
  have target: "effective_target (Target (Spec (example_default []))) = Default"
    by (simp add: example_default_def example_input_defs effective_target_def)
  obtain rsp c oci where
    run: "example_run (example_default []) example_cache = Inr (Responded rsp, c, oci)"
    and changed: "Desired rsp \<noteq> Desired example_start" using example_run_cached by blast
  have written: "SetDesiredComposedResources example_responder rsp2 d \<noteq> Inl e" for rsp2 d e
    by (simp add: example_responder_def)
  have request: "GetDesiredComposedResources (example_request (example_default [])) = Inr []"
    "GetObservedCompositeResource (example_request (example_default [])) = Inr example_oxr"
    by (simp_all add: example_request_def)
  have oxr: "xr_Resource example_oxr = Some (example_object ''XR'' ''xr'')"
    by (simp add: example_oxr_def)
  from RunFunction_default_desired [OF example_annotation_laws example_responder_laws get target
      run [unfolded example_run_def] changed] run request oxr example_cache_hit
  show ?thesis by (auto simp: example_data written)
qed

end
