(* ===== verification/Recycler.thy ===== *)
theory Recycler
  imports Env_Config
begin

text \<open>
  The memory recycler of \<open>recycle.go\<close>: the trigger \<open>shouldRecycle\<close>, and the protocol between the
  \<open>RunFunction\<close> calls, the watchdog and the goroutine that drains them, as a step relation whose
  steps are the atomic operations of the code. It holds the reader-writer lock \<open>gate\<close>, the atomic
  counters and the flag \<open>draining\<close>.
\<close>

section \<open>The trigger\<close>

text \<open>The reason a human reads is kept as the numbers it is made of.\<close>

datatype recycle_reason =
    ReconcileCount "64 word" "64 word"
  | Lifetime int int
  | ResidentSet "64 word" "64 word"

definition shouldRecycle ::
  "'f recycleConfig \<Rightarrow> 64 word \<Rightarrow> int \<Rightarrow> int \<Rightarrow> go_error + 64 word \<Rightarrow> recycle_reason option"
where
  "shouldRecycle cfg count start now readRSS =
     (if maxReconciles cfg > 0 \<and> count \<ge> maxReconciles cfg then
        Some (ReconcileCount count (maxReconciles cfg))
      else if maxLifetime cfg > 0 \<and> time_sub now start \<ge> maxLifetime cfg then
        Some (Lifetime (time_sub now start) (maxLifetime cfg))
      else if maxRSSBytes cfg > 0 then
        (case readRSS of
           Inl err \<Rightarrow> None
         | Inr rss \<Rightarrow> if rss \<ge> maxRSSBytes cfg then Some (ResidentSet rss (maxRSSBytes cfg)) else None)
      else None)"

text \<open>\<open>run\<close> starts the watchdog when a trigger is on; \<open>NewTicker\<close> panics on an interval that is
  not positive. The result says whether a watchdog runs.\<close>

definition recycler_run :: "'f recycleConfig option \<Rightarrow> failure + bool" where
  "recycler_run r =
     (case r of
        None \<Rightarrow> Inr False
      | Some cfg \<Rightarrow>
          if \<not> recycle_enabled cfg then Inr False
          else if checkInterval cfg \<le> 0 then Inl (Panic NonPositiveTicker)
          else Inr True)"

section \<open>The gate\<close>

text \<open>A reader-writer lock: a pending or active writer keeps new readers out.\<close>

record gate =
  readers :: nat
  pending :: bool
  writing :: bool

definition RLock :: "gate \<Rightarrow> gate option" where
  "RLock g = (if pending g \<or> writing g then None else Some (g\<lparr>readers := readers g + 1\<rparr>))"

definition RUnlock :: "gate \<Rightarrow> gate option" where
  "RUnlock g = (if readers g = 0 then None else Some (g\<lparr>readers := readers g - 1\<rparr>))"

definition Lock_announce :: "gate \<Rightarrow> gate option" where
  "Lock_announce g = (if pending g \<or> writing g then None else Some (g\<lparr>pending := True\<rparr>))"

definition Lock_acquire :: "gate \<Rightarrow> gate option" where
  "Lock_acquire g =
     (if pending g \<and> readers g = 0 then Some (g\<lparr>pending := False, writing := True\<rparr>) else None)"

section \<open>The protocol\<close>

text \<open>Where a call is: past the test of \<open>draining\<close>, past \<open>RLock\<close>, past \<open>inflight.Add(1)\<close>, admitted
  (past \<open>count.Add(1)\<close>), and in \<open>end\<close> past \<open>inflight.Add(-1)\<close>.\<close>

datatype call_pc = Checked | Gated | Entered | Admitted | Left

datatype watch_pc = Watching | Firing | Returned | Selecting | Exiting bool | Exited bool

datatype drain_pc = NoDrainer | Spawned | Pending | Held | Closed

record recycler =
  calls :: "nat \<rightharpoonup> call_pc"
  the_gate :: gate
  inflight :: "64 word"
  count :: "64 word"
  draining :: bool
  watcher :: watch_pc
  drainer :: drain_pc
  exits :: nat

definition newRecycler :: recycler where
  "newRecycler =
     \<lparr>calls = Map.empty, the_gate = \<lparr>readers = 0, pending = False, writing = False\<rparr>,
      inflight = 0, count = 0, draining = False, watcher = Watching, drainer = NoDrainer, exits = 0\<rparr>"

definition set_call :: "nat \<Rightarrow> call_pc option \<Rightarrow> recycler \<Rightarrow> recycler" where
  "set_call i pc s = s\<lparr>calls := (calls s)(i := pc)\<rparr>"

text \<open>The steps of the calls: \<open>begin\<close> and \<open>end\<close>.\<close>

inductive call_step :: "recycler \<Rightarrow> recycler \<Rightarrow> bool" where
  begin_check_step: "calls s i = None \<Longrightarrow> \<not> draining s \<Longrightarrow> call_step s (set_call i (Some Checked) s)"
| begin_rlock_step: "calls s i = Some Checked \<Longrightarrow> RLock (the_gate s) = Some g \<Longrightarrow>
    call_step s (set_call i (Some Gated) (s\<lparr>the_gate := g\<rparr>))"
| begin_inflight_step: "calls s i = Some Gated \<Longrightarrow>
    call_step s (set_call i (Some Entered) (s\<lparr>inflight := inflight s + 1\<rparr>))"
| begin_count_step: "calls s i = Some Entered \<Longrightarrow>
    call_step s (set_call i (Some Admitted) (s\<lparr>count := count s + 1\<rparr>))"
| end_inflight_step: "calls s i = Some Admitted \<Longrightarrow>
    call_step s (set_call i (Some Left) (s\<lparr>inflight := inflight s - 1\<rparr>))"
| end_runlock_step: "calls s i = Some Left \<Longrightarrow> RUnlock (the_gate s) = Some g \<Longrightarrow>
    call_step s (set_call i None (s\<lparr>the_gate := g\<rparr>))"

text \<open>The steps of \<open>watch\<close>: a tick at which a trigger fires; the others change nothing.\<close>

inductive watch_step :: "'f recycleConfig \<Rightarrow> recycler \<Rightarrow> recycler \<Rightarrow> bool" for cfg where
  watch_fire_step: "watcher s = Watching \<Longrightarrow> shouldRecycle cfg (count s) start now rss \<noteq> None \<Longrightarrow>
    watch_step cfg s (s\<lparr>watcher := Firing\<rparr>)"

text \<open>The steps of \<open>recycle\<close> and of the goroutine it starts. The flag in \<open>Exiting\<close> and \<open>Exited\<close>
  tells a completed drain from a timeout.\<close>

inductive recycle_step :: "recycler \<Rightarrow> recycler \<Rightarrow> bool" where
  recycle_lost_step: "watcher s = Firing \<Longrightarrow> draining s \<Longrightarrow> recycle_step s (s\<lparr>watcher := Returned\<rparr>)"
| recycle_won_step: "watcher s = Firing \<Longrightarrow> \<not> draining s \<Longrightarrow>
    recycle_step s (s\<lparr>draining := True, watcher := Selecting, drainer := Spawned\<rparr>)"
| drain_announce_step: "drainer s = Spawned \<Longrightarrow> Lock_announce (the_gate s) = Some g \<Longrightarrow>
    recycle_step s (s\<lparr>the_gate := g, drainer := Pending\<rparr>)"
| drain_acquire_step: "drainer s = Pending \<Longrightarrow> Lock_acquire (the_gate s) = Some g \<Longrightarrow>
    recycle_step s (s\<lparr>the_gate := g, drainer := Held\<rparr>)"
| drain_close_step: "drainer s = Held \<Longrightarrow> recycle_step s (s\<lparr>drainer := Closed\<rparr>)"
| select_drained_step: "watcher s = Selecting \<Longrightarrow> drainer s = Closed \<Longrightarrow>
    recycle_step s (s\<lparr>watcher := Exiting True\<rparr>)"
| select_timeout_step: "watcher s = Selecting \<Longrightarrow> recycle_step s (s\<lparr>watcher := Exiting False\<rparr>)"
| recycle_exit_step: "watcher s = Exiting clean \<Longrightarrow>
    recycle_step s (s\<lparr>watcher := Exited clean, exits := exits s + 1\<rparr>)"

text \<open>The process interleaves them.\<close>

inductive rstep :: "'f recycleConfig \<Rightarrow> recycler \<Rightarrow> recycler \<Rightarrow> bool" for cfg where
  rstep_call: "call_step s t \<Longrightarrow> rstep cfg s t"
| rstep_watch: "watch_step cfg s t \<Longrightarrow> rstep cfg s t"
| rstep_recycle: "recycle_step s t \<Longrightarrow> rstep cfg s t"

lemmas begin_check = rstep_call [OF begin_check_step]
lemmas begin_rlock = rstep_call [OF begin_rlock_step]
lemmas begin_inflight = rstep_call [OF begin_inflight_step]
lemmas begin_count = rstep_call [OF begin_count_step]
lemmas end_inflight = rstep_call [OF end_inflight_step]
lemmas end_runlock = rstep_call [OF end_runlock_step]
lemmas watch_fire = rstep_watch [OF watch_fire_step]
lemmas recycle_lost = rstep_recycle [OF recycle_lost_step]
lemmas recycle_won = rstep_recycle [OF recycle_won_step]
lemmas drain_announce = rstep_recycle [OF drain_announce_step]
lemmas drain_acquire = rstep_recycle [OF drain_acquire_step]
lemmas drain_close = rstep_recycle [OF drain_close_step]
lemmas select_drained = rstep_recycle [OF select_drained_step]
lemmas select_timeout = rstep_recycle [OF select_timeout_step]
lemmas recycle_exit = rstep_recycle [OF recycle_exit_step]

inductive rsteps :: "'f recycleConfig \<Rightarrow> recycler \<Rightarrow> recycler \<Rightarrow> bool" for cfg where
  rsteps_refl: "rsteps cfg s s"
| rsteps_step: "rsteps cfg s t \<Longrightarrow> rstep cfg t u \<Longrightarrow> rsteps cfg s u"

definition reachable :: "'f recycleConfig \<Rightarrow> recycler \<Rightarrow> bool" where
  "reachable cfg s \<longleftrightarrow> rsteps cfg newRecycler s"

lemma rstep_cases [consumes 1, case_names begin_check begin_rlock begin_inflight begin_count
      end_inflight end_runlock watch_fire recycle_lost recycle_won drain_announce drain_acquire
      drain_close select_drained select_timeout recycle_exit]:
  assumes "rstep cfg s t"
    and "\<And>i. t = set_call i (Some Checked) s \<Longrightarrow> calls s i = None \<Longrightarrow> \<not> draining s \<Longrightarrow> P"
    and "\<And>i g. t = set_call i (Some Gated) (s\<lparr>the_gate := g\<rparr>) \<Longrightarrow> calls s i = Some Checked \<Longrightarrow>
      RLock (the_gate s) = Some g \<Longrightarrow> P"
    and "\<And>i. t = set_call i (Some Entered) (s\<lparr>inflight := inflight s + 1\<rparr>) \<Longrightarrow>
      calls s i = Some Gated \<Longrightarrow> P"
    and "\<And>i. t = set_call i (Some Admitted) (s\<lparr>count := count s + 1\<rparr>) \<Longrightarrow> calls s i = Some Entered \<Longrightarrow>
      P"
    and "\<And>i. t = set_call i (Some Left) (s\<lparr>inflight := inflight s - 1\<rparr>) \<Longrightarrow>
      calls s i = Some Admitted \<Longrightarrow> P"
    and "\<And>i g. t = set_call i None (s\<lparr>the_gate := g\<rparr>) \<Longrightarrow> calls s i = Some Left \<Longrightarrow>
      RUnlock (the_gate s) = Some g \<Longrightarrow> P"
    and "\<And>start now rss. t = s\<lparr>watcher := Firing\<rparr> \<Longrightarrow> watcher s = Watching \<Longrightarrow>
      shouldRecycle cfg (count s) start now rss \<noteq> None \<Longrightarrow> P"
    and "t = s\<lparr>watcher := Returned\<rparr> \<Longrightarrow> watcher s = Firing \<Longrightarrow> draining s \<Longrightarrow> P"
    and "t = s\<lparr>draining := True, watcher := Selecting, drainer := Spawned\<rparr> \<Longrightarrow> watcher s = Firing \<Longrightarrow>
      \<not> draining s \<Longrightarrow> P"
    and "\<And>g. t = s\<lparr>the_gate := g, drainer := Pending\<rparr> \<Longrightarrow> drainer s = Spawned \<Longrightarrow>
      Lock_announce (the_gate s) = Some g \<Longrightarrow> P"
    and "\<And>g. t = s\<lparr>the_gate := g, drainer := Held\<rparr> \<Longrightarrow> drainer s = Pending \<Longrightarrow>
      Lock_acquire (the_gate s) = Some g \<Longrightarrow> P"
    and "t = s\<lparr>drainer := Closed\<rparr> \<Longrightarrow> drainer s = Held \<Longrightarrow> P"
    and "t = s\<lparr>watcher := Exiting True\<rparr> \<Longrightarrow> watcher s = Selecting \<Longrightarrow> drainer s = Closed \<Longrightarrow> P"
    and "t = s\<lparr>watcher := Exiting False\<rparr> \<Longrightarrow> watcher s = Selecting \<Longrightarrow> P"
    and "\<And>clean. t = s\<lparr>watcher := Exited clean, exits := exits s + 1\<rparr> \<Longrightarrow> watcher s = Exiting clean \<Longrightarrow>
      P"
  shows P
  using assms(1)
proof (cases rule: rstep.cases)
  case rstep_call
  then show ?thesis using assms(2-7) by (cases rule: call_step.cases) metis+
next
  case rstep_watch
  then show ?thesis using assms(8) by (cases rule: watch_step.cases) metis
next
  case rstep_recycle
  then show ?thesis using assms(9-16) by (cases rule: recycle_step.cases) metis+
qed

section \<open>The invariant\<close>

text \<open>The calls that hold the gate for reading, and those the in-flight counter counts.\<close>

definition holders :: "recycler \<Rightarrow> nat set" where
  "holders s = {i. calls s i \<notin> {None, Some Checked}}"

definition counted :: "recycler \<Rightarrow> nat set" where
  "counted s = {i. calls s i \<in> {Some Entered, Some Admitted}}"

lemma holders_set_call:
  "holders (set_call i pc s) =
     (if pc \<in> {None, Some Checked} then holders s - {i} else insert i (holders s))"
  by (auto simp: holders_def set_call_def)

lemma counted_set_call:
  "counted (set_call i pc s) =
     (if pc \<in> {Some Entered, Some Admitted} then insert i (counted s) else counted s - {i})"
  by (auto simp: counted_def set_call_def)

definition counters_ok :: "recycler \<Rightarrow> bool" where
  "counters_ok s \<longleftrightarrow> finite (dom (calls s)) \<and> readers (the_gate s) = card (holders s) \<and>
     inflight s = of_nat (card (counted s))"

definition drain_ok :: "recycler \<Rightarrow> bool" where
  "drain_ok s \<longleftrightarrow>
     (pending (the_gate s) \<longleftrightarrow> drainer s = Pending) \<and>
     (writing (the_gate s) \<longleftrightarrow> drainer s \<in> {Held, Closed}) \<and>
     (writing (the_gate s) \<longrightarrow> readers (the_gate s) = 0) \<and>
     (draining s \<longleftrightarrow> watcher s \<notin> {Watching, Firing}) \<and>
     (draining s \<longleftrightarrow> drainer s \<noteq> NoDrainer) \<and>
     watcher s \<noteq> Returned \<and>
     (watcher s \<in> {Exiting True, Exited True} \<longrightarrow> drainer s = Closed) \<and>
     exits s = (if watcher s \<in> {Exited True, Exited False} then 1 else 0)"

lemma finite_holders: "finite (dom (calls s)) \<Longrightarrow> finite (holders s) \<and> finite (counted s)"
  by (auto intro!: finite_subset [of _ "dom (calls s)"] simp: holders_def counted_def)

lemma set_call_simps [simp]:
  "the_gate (set_call i pc s) = the_gate s" "inflight (set_call i pc s) = inflight s"
  "count (set_call i pc s) = count s" "draining (set_call i pc s) = draining s"
  "watcher (set_call i pc s) = watcher s" "drainer (set_call i pc s) = drainer s"
  "exits (set_call i pc s) = exits s" "calls (set_call i pc s) = (calls s)(i := pc)"
  by (simp_all add: set_call_def)

lemma holders_frame [simp]:
  "holders (s\<lparr>the_gate := g\<rparr>) = holders s" "holders (s\<lparr>inflight := n\<rparr>) = holders s"
  "holders (s\<lparr>count := n\<rparr>) = holders s" "holders (s\<lparr>watcher := w\<rparr>) = holders s"
  "holders (s\<lparr>drainer := d\<rparr>) = holders s" "holders (s\<lparr>draining := b\<rparr>) = holders s"
  "holders (s\<lparr>exits := e\<rparr>) = holders s"
  "counted (s\<lparr>the_gate := g\<rparr>) = counted s" "counted (s\<lparr>inflight := n\<rparr>) = counted s"
  "counted (s\<lparr>count := n\<rparr>) = counted s" "counted (s\<lparr>watcher := w\<rparr>) = counted s"
  "counted (s\<lparr>drainer := d\<rparr>) = counted s" "counted (s\<lparr>draining := b\<rparr>) = counted s"
  "counted (s\<lparr>exits := e\<rparr>) = counted s"
  by (simp_all add: holders_def counted_def)

text \<open>Weights of a call: 1 when it holds the gate, and 1 when it is counted.\<close>

definition gate_weight :: "call_pc option \<Rightarrow> nat" where
  "gate_weight pc = (if pc \<in> {None, Some Checked} then 0 else 1)"

definition count_weight :: "call_pc option \<Rightarrow> nat" where
  "count_weight pc = (if pc \<in> {Some Entered, Some Admitted} then 1 else 0)"

lemma card_update:
  assumes "finite A"
  shows "card (insert i A) + (if i \<in> A then 1 else 0) = card A + 1"
    and "card (A - {i}) + (if i \<in> A then 1 else 0) = card A"
  using assms card_Suc_Diff1 [OF assms, of i] by (cases "i \<in> A"; simp add: insert_absorb)+

lemma counters_move:
  assumes ok: "counters_ok s" and calls: "calls t = (calls s)(i := new)"
    and gate: "readers (the_gate t) + gate_weight (calls s i) = readers (the_gate s) + gate_weight new"
    and infl: "inflight t + of_nat (count_weight (calls s i)) = inflight s + of_nat (count_weight new)"
  shows "counters_ok t"
proof -
  from ok have fin: "finite (dom (calls s))" "finite (holders s)" "finite (counted s)"
    using finite_holders [of s] by (auto simp: counters_ok_def)
  have sets: "holders t = holders (set_call i new s)" "counted t = counted (set_call i new s)"
    by (simp_all add: holders_def counted_def calls)
  have "card (holders t) + gate_weight (calls s i) = card (holders s) + gate_weight new"
    using card_update [OF fin(2), of i] unfolding sets holders_set_call
    by (auto simp: gate_weight_def holders_def split: if_splits)
  moreover have "card (counted t) + count_weight (calls s i) = card (counted s) + count_weight new"
    using card_update [OF fin(3), of i] unfolding sets counted_set_call
    by (auto simp: count_weight_def counted_def split: if_splits)
  then have "(of_nat (card (counted t) + count_weight (calls s i)) :: 64 word) =
      of_nat (card (counted s) + count_weight new)" by simp
  moreover have "finite (dom (calls t))"
    using fin(1) by (auto simp: calls dom_fun_upd intro: finite_subset [OF _ finite.insertI])
  ultimately show ?thesis
    using ok gate infl by (simp add: counters_ok_def) (metis add_right_cancel add_right_imp_eq)
qed

lemma counters_same:
  "counters_ok s \<Longrightarrow> calls t = calls s \<Longrightarrow> readers (the_gate t) = readers (the_gate s) \<Longrightarrow>
   inflight t = inflight s \<Longrightarrow> counters_ok t"
  by (simp add: counters_ok_def holders_def counted_def)

lemma gate_simps:
  "RLock g = Some g' \<Longrightarrow> readers g' = readers g + 1 \<and> \<not> pending g \<and> \<not> writing g"
  "RUnlock g = Some g' \<Longrightarrow> readers g = readers g' + 1"
  "Lock_announce g = Some g' \<Longrightarrow> readers g' = readers g"
  "Lock_acquire g = Some g' \<Longrightarrow> readers g' = readers g \<and> readers g = 0"
  by (auto simp: RLock_def RUnlock_def Lock_announce_def Lock_acquire_def split: if_splits)

lemma counters_ok_step:
  assumes "rstep cfg s t" and ok: "counters_ok s"
  shows "counters_ok t"
  using assms(1)
proof (cases rule: rstep_cases)
  case (begin_check i)
  then show ?thesis by (intro counters_move [OF ok, of _ i "Some Checked"])
      (simp_all add: gate_weight_def count_weight_def)
next
  case (begin_rlock i g)
  then show ?thesis by (intro counters_move [OF ok, of _ i "Some Gated"])
      (simp_all add: gate_weight_def count_weight_def gate_simps)
next
  case (begin_inflight i)
  then show ?thesis by (intro counters_move [OF ok, of _ i "Some Entered"])
      (simp_all add: gate_weight_def count_weight_def)
next
  case (begin_count i)
  then show ?thesis by (intro counters_move [OF ok, of _ i "Some Admitted"])
      (simp_all add: gate_weight_def count_weight_def)
next
  case (end_inflight i)
  then show ?thesis by (intro counters_move [OF ok, of _ i "Some Left"])
      (simp_all add: gate_weight_def count_weight_def)
next
  case (end_runlock i g)
  then show ?thesis by (intro counters_move [OF ok, of _ i None])
      (simp_all add: gate_weight_def count_weight_def gate_simps)
qed (auto intro!: counters_same [OF ok] dest: gate_simps)

lemma drain_ok_step:
  assumes "rstep cfg s t" and "drain_ok s"
  shows "drain_ok t"
  using assms
  by (cases rule: rstep_cases)
     (auto simp: drain_ok_def RLock_def RUnlock_def Lock_announce_def Lock_acquire_def split: if_splits)

section \<open>Invariants of runs\<close>

text \<open>What every step keeps holds along every run.\<close>

locale run_invariant =
  fixes cfg :: "'f recycleConfig" and keeps :: "recycler \<Rightarrow> bool"
  assumes step_keeps: "keeps s \<Longrightarrow> rstep cfg s t \<Longrightarrow> keeps t"
begin

lemma run_keeps: "rsteps cfg s t \<Longrightarrow> keeps s \<Longrightarrow> keeps t"
  by (induction rule: rsteps.induct) (auto intro: step_keeps)

lemma reachable_keeps: "reachable cfg s \<Longrightarrow> keeps newRecycler \<Longrightarrow> keeps s"
  unfolding reachable_def by (rule run_keeps)

end

interpretation counters: run_invariant cfg counters_ok for cfg
  by unfold_locales (rule counters_ok_step)

interpretation drain: run_invariant cfg drain_ok for cfg
  by unfold_locales (rule drain_ok_step)

lemma reachable_ok:
  assumes "reachable cfg s"
  shows "counters_ok s" and "drain_ok s"
proof -
  have "counters_ok newRecycler" and "drain_ok newRecycler"
    by (simp_all add: counters_ok_def drain_ok_def newRecycler_def holders_def counted_def)
  then show "counters_ok s" and "drain_ok s"
    using counters.reachable_keeps [OF assms] drain.reachable_keeps [OF assms] by auto
qed

text \<open>Once draining, no call gets past the test of the flag; once the drainer asked for the lock, no
  call gets past \<open>RLock\<close>.\<close>

definition turned_away :: "nat \<Rightarrow> recycler \<Rightarrow> bool" where
  "turned_away i s \<longleftrightarrow> draining s \<and> calls s i = None"

definition blocked :: "nat \<Rightarrow> recycler \<Rightarrow> bool" where
  "blocked i s \<longleftrightarrow> drain_ok s \<and> drainer s \<in> {Pending, Held, Closed} \<and> calls s i = Some Checked"

lemma turned_away_step: "turned_away i s \<Longrightarrow> rstep cfg s t \<Longrightarrow> turned_away i t"
  by (erule rstep_cases) (auto simp: turned_away_def)

lemma blocked_step:
  assumes "blocked i s" and step: "rstep cfg s t"
  shows "blocked i t"
proof -
  have ok: "drain_ok t" using drain_ok_step [OF step] assms(1) by (simp add: blocked_def)
  have shut: "RLock (the_gate s) = None" and drn: "draining s"
    and d: "drainer s \<in> {Pending, Held, Closed}" and c: "calls s i = Some Checked"
    using assms(1) by (auto simp: blocked_def drain_ok_def RLock_def)
  have "drainer t \<in> {Pending, Held, Closed}"
    using step d drn by (cases rule: rstep_cases) simp_all
  moreover have "calls t i = Some Checked"
    using step c shut by (cases rule: rstep_cases) (simp_all, (metis option.distinct(1) option.inject call_pc.distinct)+)
  ultimately show ?thesis using ok by (simp add: blocked_def)
qed

interpretation away: run_invariant cfg "turned_away i" for cfg i
  by unfold_locales (rule turned_away_step)

interpretation stuck: run_invariant cfg "blocked i" for cfg i
  by unfold_locales (rule blocked_step)

section \<open>Draining completes\<close>

lemma rsteps_trans: "rsteps cfg t u \<Longrightarrow> rsteps cfg s t \<Longrightarrow> rsteps cfg s u"
  by (induction rule: rsteps.induct) (auto intro: rsteps.intros)

lemma rsteps_then: "rstep cfg s t \<Longrightarrow> rsteps cfg t u \<Longrightarrow> rsteps cfg s u"
  by (rule rsteps_trans) (auto intro: rsteps.intros)

definition same_drain :: "recycler \<Rightarrow> recycler \<Rightarrow> bool" where
  "same_drain s t \<longleftrightarrow> watcher t = watcher s \<and> drainer t = drainer s"

text \<open>A call that holds the gate runs to its end, whatever the drainer does.\<close>

lemma call_leaves:
  assumes "counters_ok s" and "calls s i = Some Left"
  shows "\<exists>t. rsteps cfg s t \<and> same_drain s t \<and> calls t = (calls s)(i := None)"
proof -
  from assms have "i \<in> holders s" "finite (holders s)"
    using finite_holders [of s] by (auto simp: holders_def counters_ok_def)
  then have "readers (the_gate s) \<noteq> 0" using assms(1) by (auto simp: counters_ok_def)
  then obtain g where "RUnlock (the_gate s) = Some g" by (auto simp: RUnlock_def)
  from end_runlock [OF assms(2) this]
  have "rsteps cfg s (set_call i None (s\<lparr>the_gate := g\<rparr>))" by (blast intro: rsteps.intros)
  then show ?thesis by (force simp: same_drain_def)
qed

lemma call_advances:
  assumes "counters_ok s" and "rstep cfg s t" and "same_drain s t" and "calls t = (calls s)(i := pc)"
    and "\<And>s'. counters_ok s' \<Longrightarrow> calls s' i = pc \<Longrightarrow>
      \<exists>u. rsteps cfg s' u \<and> same_drain s' u \<and> calls u = (calls s')(i := None)"
  shows "\<exists>u. rsteps cfg s u \<and> same_drain s u \<and> calls u = (calls s)(i := None)"
proof -
  have "calls t i = pc" using assms(4) by simp
  with assms(5) [OF counters_ok_step [OF assms(2,1)]] obtain u where
    "rsteps cfg t u" "same_drain t u" "calls u = (calls t)(i := None)" by blast
  with assms(2-4) show ?thesis
    by (intro exI [of _ u]) (auto simp: same_drain_def intro: rsteps_then)
qed

lemma call_ends:
  assumes "counters_ok s" and "calls s i \<notin> {None, Some Checked}"
  shows "\<exists>t. rsteps cfg s t \<and> same_drain s t \<and> calls t = (calls s)(i := None)"
proof -
  have admitted: "\<exists>t. rsteps cfg s t \<and> same_drain s t \<and> calls t = (calls s)(i := None)"
    if "counters_ok s" "calls s i = Some Admitted" for s
    by (rule call_advances [OF that(1) end_inflight [OF that(2)] _ _ call_leaves])
       (simp_all add: same_drain_def)
  have entered: "\<exists>t. rsteps cfg s t \<and> same_drain s t \<and> calls t = (calls s)(i := None)"
    if "counters_ok s" "calls s i = Some Entered" for s
    by (rule call_advances [OF that(1) begin_count [OF that(2)] _ _ admitted])
       (simp_all add: same_drain_def)
  have gated: "\<exists>t. rsteps cfg s t \<and> same_drain s t \<and> calls t = (calls s)(i := None)"
    if "counters_ok s" "calls s i = Some Gated" for s
    by (rule call_advances [OF that(1) begin_inflight [OF that(2)] _ _ entered])
       (simp_all add: same_drain_def)
  obtain pc where "calls s i = Some pc" "pc \<noteq> Checked" using assms(2) by auto
  with assms(1) gated entered admitted call_leaves [of s i cfg] show ?thesis by (cases pc) auto
qed

lemma calls_end:
  "counters_ok s \<Longrightarrow> card (holders s) = n \<Longrightarrow>
   \<exists>t. rsteps cfg s t \<and> same_drain s t \<and> holders t = {}"
proof (induction n arbitrary: s)
  case 0
  then have "holders s = {}" using finite_holders [of s] by (simp add: counters_ok_def)
  then show ?case by (force simp: same_drain_def intro: rsteps.intros)
next
  case (Suc n)
  then obtain i where i: "i \<in> holders s" by fastforce
  then have "calls s i \<notin> {None, Some Checked}" by (simp add: holders_def)
  from call_ends [OF Suc.prems(1) this] obtain t where
    t: "rsteps cfg s t" "same_drain s t" "calls t = (calls s)(i := None)" by blast
  have "holders t = holders s - {i}" using t(3) by (auto simp: holders_def)
  then have "card (holders t) = n" using Suc.prems(2) i by simp
  with Suc.IH [of t] counters.run_keeps [OF t(1) Suc.prems(1)] obtain u where
    "rsteps cfg t u" "same_drain t u" "holders u = {}" by blast
  with t show ?case by (intro exI [of _ u]) (auto simp: same_drain_def intro: rsteps_trans)
qed

lemma drain_completes:
  assumes "counters_ok s" and "drain_ok s" and "watcher s = Selecting" and "drainer s \<noteq> Closed"
  shows "\<exists>t. rsteps cfg s t \<and> watcher t = Selecting \<and> drainer t = Closed"
proof -
  have held: "\<exists>t. rsteps cfg s t \<and> watcher t = Selecting \<and> drainer t = Closed"
    if "drainer s = Held" "watcher s = Selecting" for s
    using that by (intro exI [of _ "s\<lparr>drainer := Closed\<rparr>"]) (auto intro: rsteps.intros drain_close)
  have waiting: "\<exists>t. rsteps cfg s t \<and> watcher t = Selecting \<and> drainer t = Closed"
    if s: "drainer s = Pending" "watcher s = Selecting" "counters_ok s" "drain_ok s" for s
  proof -
    from calls_end [OF s(3) refl] obtain t where t: "rsteps cfg s t" "same_drain s t" "holders t = {}"
      by blast
    have ok: "counters_ok t" "drain_ok t"
      using counters.run_keeps [OF t(1) s(3)] drain.run_keeps [OF t(1) s(4)] .
    then obtain g where "Lock_acquire (the_gate t) = Some g"
      using t s by (auto simp: counters_ok_def drain_ok_def same_drain_def Lock_acquire_def)
    with t s have "rstep cfg t (t\<lparr>the_gate := g, drainer := Held\<rparr>)"
      by (intro drain_acquire) (simp add: same_drain_def)
    moreover obtain u where "rsteps cfg (t\<lparr>the_gate := g, drainer := Held\<rparr>) u"
      "watcher u = Selecting" "drainer u = Closed"
      using held [of "t\<lparr>the_gate := g, drainer := Held\<rparr>"] t s by (auto simp: same_drain_def)
    ultimately show ?thesis using rsteps_trans [OF _ t(1)] rsteps_then by blast
  qed
  show ?thesis
  proof (cases "drainer s")
    case Spawned
    then obtain g where "Lock_announce (the_gate s) = Some g"
      using assms(2) by (auto simp: drain_ok_def Lock_announce_def)
    from drain_announce [OF Spawned this]
    have step: "rstep cfg s (s\<lparr>the_gate := g, drainer := Pending\<rparr>)" .
    from waiting [of "s\<lparr>the_gate := g, drainer := Pending\<rparr>"] assms(3)
      counters_ok_step [OF step assms(1)] drain_ok_step [OF step assms(2)] step
    show ?thesis by (auto intro: rsteps_then)
  qed (use assms held waiting in \<open>auto simp: drain_ok_def\<close>)
qed

section \<open>Draining terminates\<close>

text \<open>The steps a call, the drainer and the watchdog have left once the process drains.\<close>

definition call_left :: "call_pc option \<Rightarrow> nat" where
  "call_left pc = (case pc of None \<Rightarrow> 0 | Some Left \<Rightarrow> 1 | Some Admitted \<Rightarrow> 2 | Some Entered \<Rightarrow> 3
     | Some Gated \<Rightarrow> 4 | Some Checked \<Rightarrow> 5)"

definition drain_left :: "drain_pc \<Rightarrow> nat" where
  "drain_left d = (case d of NoDrainer \<Rightarrow> 3 | Spawned \<Rightarrow> 3 | Pending \<Rightarrow> 2 | Held \<Rightarrow> 1 | Closed \<Rightarrow> 0)"

definition watch_left :: "watch_pc \<Rightarrow> nat" where
  "watch_left w = (case w of Selecting \<Rightarrow> 2 | Exiting clean \<Rightarrow> 1 | _ \<Rightarrow> 0)"

definition calls_left :: "(nat \<rightharpoonup> call_pc) \<Rightarrow> nat" where
  "calls_left m = (\<Sum>i \<in> dom m. call_left (m i))"

definition steps_left :: "recycler \<Rightarrow> nat" where
  "steps_left s = calls_left (calls s) + drain_left (drainer s) + watch_left (watcher s)"

lemma calls_left_upd:
  assumes "finite (dom m)" and "m i \<noteq> None"
  shows "calls_left (m(i := pc)) + call_left (m i) = calls_left m + call_left pc"
proof -
  have i: "i \<in> dom m" using assms(2) by auto
  have rest: "(\<Sum>j \<in> dom m - {i}. call_left ((m(i := pc)) j)) = (\<Sum>j \<in> dom m - {i}. call_left (m j))"
    by (rule sum.cong) auto
  have "calls_left (m(i := pc)) = (\<Sum>j \<in> dom m. call_left ((m(i := pc)) j))"
    unfolding calls_left_def using assms i
    by (intro sum.mono_neutral_left) (auto simp: call_left_def)
  with rest show ?thesis
    using sum.remove [OF assms(1) i, of "\<lambda>j. call_left ((m(i := pc)) j)"]
      sum.remove [OF assms(1) i, of "\<lambda>j. call_left (m j)"] by (simp add: calls_left_def)
qed

lemma calls_left_bound:
  assumes "finite (dom m)"
  shows "calls_left m \<le> 5 * card (dom m)"
proof -
  have "call_left pc \<le> 5" for pc by (auto simp: call_left_def split: option.split call_pc.split)
  then show ?thesis
    using sum_bounded_above [of "dom m" "\<lambda>i. call_left (m i)" 5] by (simp add: calls_left_def mult.commute)
qed

lemma draining_step:
  assumes "rstep cfg s t" and "finite (dom (calls s))" and "drain_ok s" and "draining s"
  shows "steps_left t < steps_left s \<and> draining t"
  using assms
proof (cases rule: rstep_cases)
  case (begin_rlock i g)
  with assms(2) calls_left_upd [of "calls s" i "Some Gated"] assms(4) show ?thesis
    by (simp add: steps_left_def call_left_def)
next
  case (begin_inflight i)
  with assms(2) calls_left_upd [of "calls s" i "Some Entered"] assms(4) show ?thesis
    by (simp add: steps_left_def call_left_def)
next
  case (begin_count i)
  with assms(2) calls_left_upd [of "calls s" i "Some Admitted"] assms(4) show ?thesis
    by (simp add: steps_left_def call_left_def)
next
  case (end_inflight i)
  with assms(2) calls_left_upd [of "calls s" i "Some Left"] assms(4) show ?thesis
    by (simp add: steps_left_def call_left_def)
next
  case (end_runlock i g)
  with assms(2) calls_left_upd [of "calls s" i None] assms(4) show ?thesis
    by (simp add: steps_left_def call_left_def)
qed (auto simp: steps_left_def drain_left_def watch_left_def drain_ok_def)

text \<open>A run of \<open>n\<close> steps from a draining state uses up \<open>n\<close> of the steps left.\<close>

lemma draining_run:
  "(rstep cfg ^^ n) s t \<Longrightarrow> counters_ok s \<Longrightarrow> drain_ok s \<Longrightarrow> draining s \<Longrightarrow>
   n + steps_left t \<le> steps_left s \<and> draining t"
proof (induction n arbitrary: t)
  case (Suc n)
  then obtain u where u: "(rstep cfg ^^ n) s u" "rstep cfg u t" by auto
  have "rsteps cfg s u" using u(1)
    by (induction n arbitrary: u) (auto intro: rsteps.intros)
  with Suc.prems have ok: "counters_ok u" "drain_ok u"
    by (auto intro: counters.run_keeps drain.run_keeps)
  from Suc.IH [OF u(1) Suc.prems(2-4)] draining_step [OF u(2) _ ok(2)] ok(1)
  show ?case by (auto simp: counters_ok_def)
qed simp

lemma disabled_step:
  assumes "\<not> recycle_enabled cfg"
  shows "shouldRecycle cfg c start now rss = None"
  using assms by (auto simp: recycle_enabled_def shouldRecycle_def split: sum.split)

section \<open>Example runs\<close>

definition example_cfg :: "int recycleConfig" where
  "example_cfg = \<lparr>maxRSSBytes = 0, maxRSSRatio = 0, maxReconciles = 0, maxLifetime = 1,
     checkInterval = 1, drainTimeout = 1\<rparr>"

text \<open>A call has just passed the test of the flag when the watchdog starts to drain.\<close>

definition example_late :: recycler where
  "example_late = set_call 7 (Some Checked) newRecycler\<lparr>draining := True, watcher := Selecting,
     drainer := Spawned\<rparr>"

definition example_pending :: recycler where
  "example_pending = example_late\<lparr>the_gate := \<lparr>readers = 0, pending = True, writing = False\<rparr>,
     drainer := Pending\<rparr>"

definition example_exit :: recycler where
  "example_exit = example_pending\<lparr>the_gate := \<lparr>readers = 0, pending = False, writing = True\<rparr>,
     drainer := Closed, watcher := Exiting True\<rparr>"

lemma example_late_reachable: "reachable example_cfg example_late"
proof -
  let ?a = "set_call 7 (Some Checked) newRecycler"
  have 1: "rsteps example_cfg newRecycler ?a"
    by (rule rsteps_step [OF rsteps_refl begin_check]) (simp_all add: newRecycler_def)
  have 2: "rsteps example_cfg newRecycler (?a\<lparr>watcher := Firing\<rparr>)"
    by (rule rsteps_step [OF 1 watch_fire [where start = 0 and now = 1 and rss = "Inr 0"]])
       (simp_all add: newRecycler_def example_cfg_def shouldRecycle_def time_sub_def)
  have "rsteps example_cfg newRecycler
      (?a\<lparr>watcher := Firing\<rparr>\<lparr>draining := True, watcher := Selecting, drainer := Spawned\<rparr>)"
    by (rule rsteps_step [OF 2 recycle_won]) (simp_all add: newRecycler_def)
  then show ?thesis by (simp add: reachable_def example_late_def)
qed

lemma example_pending_reachable: "reachable example_cfg example_pending"
  unfolding reachable_def example_pending_def
  by (rule rsteps_step [OF example_late_reachable [unfolded reachable_def] drain_announce])
     (simp_all add: example_late_def newRecycler_def Lock_announce_def)

lemma example_exit_reachable: "reachable example_cfg example_exit"
proof -
  let ?g = "\<lparr>readers = 0, pending = False, writing = True\<rparr>"
  have 1: "rsteps example_cfg newRecycler (example_pending\<lparr>the_gate := ?g, drainer := Held\<rparr>)"
    by (rule rsteps_step [OF example_pending_reachable [unfolded reachable_def] drain_acquire])
       (simp_all add: example_pending_def Lock_acquire_def)
  have 2: "rsteps example_cfg newRecycler (example_pending\<lparr>the_gate := ?g, drainer := Held\<rparr>\<lparr>drainer := Closed\<rparr>)"
    by (rule rsteps_step [OF 1 drain_close]) simp
  have "rsteps example_cfg newRecycler
      (example_pending\<lparr>the_gate := ?g, drainer := Held\<rparr>\<lparr>drainer := Closed\<rparr>\<lparr>watcher := Exiting True\<rparr>)"
    by (rule rsteps_step [OF 2 select_drained]) (simp_all add: example_pending_def example_late_def)
  then show ?thesis by (simp add: reachable_def example_exit_def)
qed

section \<open>Properties\<close>

text \<open>C13: when the process exits because the drain completed, no call is between \<open>RLock\<close> and
  \<open>RUnlock\<close>, the in-flight counter is zero, and no call will get there.\<close>

theorem clean_exit_is_drained:
  assumes "reachable cfg s" and "watcher s \<in> {Exiting True, Exited True}" and "rsteps cfg s t"
  shows "holders t = {} \<and> inflight t = 0"
proof -
  have clean: "holders s = {} \<and> inflight s = 0 \<and> watcher s \<in> {Exiting True, Exited True}"
    if "counters_ok s" "drain_ok s" "watcher s \<in> {Exiting True, Exited True}" for s
  proof -
    have "readers (the_gate s) = 0" using that(2,3) by (auto simp: drain_ok_def)
    then have "holders s = {}"
      using that(1) finite_holders [of s] by (auto simp: counters_ok_def)
    moreover have "counted s \<subseteq> holders s" by (auto simp: counted_def holders_def)
    ultimately show ?thesis using that by (simp add: counters_ok_def)
  qed
  have ok: "counters_ok t" "drain_ok t"
    using counters.run_keeps [OF assms(3) reachable_ok(1) [OF assms(1)]]
      drain.run_keeps [OF assms(3) reachable_ok(2) [OF assms(1)]] .
  have "watcher t \<in> {Exiting True, Exited True}"
    using assms(3,2) by (induction rule: rsteps.induct) (auto elim!: rstep_cases)
  with clean [OF ok] show ?thesis by simp
qed

theorem clean_exit_is_drained_witness:
  "holders example_exit = {} \<and> inflight example_exit = 0"
  by (rule clean_exit_is_drained [OF example_exit_reachable _ rsteps_refl])
     (simp add: example_exit_def)

text \<open>C16: in every reachable state the in-flight counter is the number of admitted calls and the
  lock counts its holders; the process exits at most once, and only after \<open>draining\<close> was set; from
  then on no call is admitted that had not already passed the test of the flag.\<close>

theorem recycler_invariant:
  assumes "reachable cfg s"
  shows "inflight s = of_nat (card (counted s)) \<and> readers (the_gate s) = card (holders s) \<and>
    exits s \<le> 1 \<and> (exits s = 1 \<longrightarrow> draining s) \<and>
    (\<forall>i t. draining s \<and> calls s i = None \<and> rsteps cfg s t \<longrightarrow> calls t i = None)"
proof -
  have "calls t i = None" if "draining s" "calls s i = None" "rsteps cfg s t" for i t
    using away.run_keeps [OF that(3), of i] that by (simp add: turned_away_def)
  with reachable_ok [OF assms] show ?thesis by (auto simp: counters_ok_def drain_ok_def)
qed

theorem recycler_invariant_witness:
  "inflight example_exit = of_nat (card (counted example_exit)) \<and> exits example_exit \<le> 1"
  using recycler_invariant [OF example_exit_reachable] by blast

text \<open>C15: from every reachable state in which the watchdog waits for the drain, the calls in flight
  can run to their end and the process then exits cleanly: the drain cannot deadlock.\<close>

theorem drain_can_complete:
  assumes "reachable cfg s" and "watcher s = Selecting"
  shows "\<exists>t. rsteps cfg s t \<and> watcher t = Exited True \<and> exits t = 1 \<and> holders t = {}"
proof -
  obtain t where t: "rsteps cfg s t" "watcher t = Selecting" "drainer t = Closed"
  proof (cases "drainer s = Closed")
    case True
    with assms(2) show ?thesis by (intro that [OF rsteps_refl])
  next
    case False
    from drain_completes [OF reachable_ok [OF assms(1)] assms(2) False] that show ?thesis by blast
  qed
  let ?u = "t\<lparr>watcher := Exiting True\<rparr>" and ?v = "t\<lparr>watcher := Exiting True\<rparr>\<lparr>watcher := Exited True, exits := exits t + 1\<rparr>"
  have "rstep cfg t ?u" using t by (intro select_drained)
  moreover have "rstep cfg ?u (?u\<lparr>watcher := Exited True, exits := exits ?u + 1\<rparr>)"
    by (rule recycle_exit) simp
  ultimately have run: "rsteps cfg s ?v" using t(1) by (auto intro: rsteps_step)
  have "reachable cfg ?v"
    using rsteps_trans [OF run] assms(1) by (simp add: reachable_def)
  from reachable_ok [OF this] have "exits ?v = 1" and "readers (the_gate ?v) = 0" "counters_ok ?v"
    using t(3) by (auto simp: drain_ok_def)
  moreover from this have "holders ?v = {}"
    using finite_holders [of ?v] by (auto simp: counters_ok_def)
  ultimately show ?thesis using run by (intro exI [of _ ?v]) simp
qed

theorem drain_can_complete_witness:
  "\<exists>t. rsteps example_cfg example_late t \<and> watcher t = Exited True \<and> exits t = 1 \<and> holders t = {}"
  by (rule drain_can_complete [OF example_late_reachable]) (simp add: example_late_def)

text \<open>C17: a call that passed the test of the flag just before the drain began and has not reached
  the lock when the drainer asks for it is neither admitted nor rejected: it stays blocked in
  \<open>begin\<close> for good.\<close>

theorem late_call_blocks:
  assumes "reachable cfg s" and "drainer s \<in> {Pending, Held, Closed}"
    and "calls s i = Some Checked" and "rsteps cfg s t"
  shows "calls t i = Some Checked"
  using stuck.run_keeps [OF assms(4), of i] reachable_ok(2) [OF assms(1)] assms(2,3)
  by (simp add: blocked_def)

theorem late_call_blocks_witness:
  "{t. rsteps example_cfg example_pending t \<and> calls t 7 \<noteq> Some Checked} = {}"
  using late_call_blocks [OF example_pending_reachable, of 7]
  by (simp add: example_pending_def example_late_def)

text \<open>C14: once the process drains it cannot run forever: every run has at most five steps for each
  call inside \<open>begin\<close> or \<open>end\<close> and five for the drainer and the watchdog, and a run that cannot be
  continued has ended the process, exactly once.\<close>

theorem drain_terminates:
  assumes "reachable cfg s" and "draining s"
  shows "((rstep cfg ^^ n) s t \<longrightarrow> n \<le> 5 * card (dom (calls s)) + 5) \<and>
    (rsteps cfg s t \<and> (\<forall>u. \<not> rstep cfg t u) \<longrightarrow>
       watcher t \<in> {Exited True, Exited False} \<and> exits t = 1)"
proof (intro conjI impI)
  note ok = reachable_ok [OF assms(1)]
  have "drain_left (drainer s) \<le> 3" "watch_left (watcher s) \<le> 2"
    by (auto simp: drain_left_def watch_left_def split: drain_pc.split watch_pc.split)
  then have bound: "steps_left s \<le> 5 * card (dom (calls s)) + 5"
    using calls_left_bound [of "calls s"] ok(1) by (simp add: steps_left_def counters_ok_def)
  assume "(rstep cfg ^^ n) s t"
  from draining_run [OF this ok assms(2)] bound show "n \<le> 5 * card (dom (calls s)) + 5" by simp
next
  assume t: "rsteps cfg s t \<and> (\<forall>u. \<not> rstep cfg t u)"
  have "draining t" using t [THEN conjunct1] assms(2)
    by (induction rule: rsteps.induct) (auto elim!: rstep_cases)
  moreover have "drain_ok t"
    using drain.run_keeps [OF t [THEN conjunct1] reachable_ok(2) [OF assms(1)]] .
  moreover have "watcher t \<noteq> Selecting" "watcher t \<noteq> Exiting clean" for clean
    using t select_timeout recycle_exit by blast+
  ultimately have "\<exists>clean. watcher t = Exited clean" and "drain_ok t"
    by (cases "watcher t"; auto simp: drain_ok_def)+
  then show "watcher t \<in> {Exited True, Exited False}" and "exits t = 1"
    by (auto simp: drain_ok_def)
qed

theorem drain_terminates_witness:
  "{n. \<exists>t. (rstep example_cfg ^^ n) example_late t} \<subseteq> {..10}"
proof -
  have "dom (calls example_late) = {7}" by (auto simp: example_late_def newRecycler_def)
  moreover have "draining example_late" by (simp add: example_late_def)
  ultimately show ?thesis
    using drain_terminates [OF example_late_reachable] by fastforce
qed

text \<open>C37: the watchdog starts exactly when a trigger is configured; then a check interval that is
  not positive is not rejected but makes the process panic.\<close>

theorem recycler_run_correct:
  assumes "maxLifetime cfg < 2 ^ 63"
  shows "recycler_run None = Inr False \<and>
    recycler_run (Some cfg) =
      (if (\<forall>c start now rss. shouldRecycle cfg c start now rss = None) then Inr False
       else if checkInterval cfg \<le> 0 then Inl (Panic NonPositiveTicker) else Inr True)"
proof -
  have "\<exists>c start now rss. shouldRecycle cfg c start now rss \<noteq> None" if "recycle_enabled cfg"
  proof -
    consider "maxReconciles cfg > 0" | "maxLifetime cfg > 0" | "maxRSSBytes cfg > 0"
      using \<open>recycle_enabled cfg\<close> by (auto simp: recycle_enabled_def)
    then show ?thesis
    proof cases
      case 1
      then have "shouldRecycle cfg (maxReconciles cfg) 0 0 (Inr 0) \<noteq> None" by (simp add: shouldRecycle_def)
      then show ?thesis by blast
    next
      case 2
      with assms have "shouldRecycle cfg 0 0 (maxLifetime cfg) (Inr 0) \<noteq> None"
        by (auto simp: shouldRecycle_def time_sub_def)
      then show ?thesis by blast
    next
      case 3
      then have "shouldRecycle cfg 0 0 0 (Inr (maxRSSBytes cfg)) \<noteq> None" by (simp add: shouldRecycle_def)
      then show ?thesis by blast
    qed
  qed
  with disabled_step [of cfg] show ?thesis by (auto simp: recycler_run_def)
qed

theorem recycler_run_correct_witness:
  "recycler_run (Some (example_cfg\<lparr>checkInterval := 0\<rparr>)) = Inl (Panic NonPositiveTicker) \<and>
   recycler_run (Some example_cfg) = Inr True"
proof -
  have "shouldRecycle (example_cfg\<lparr>checkInterval := n\<rparr>) 0 0 1 (Inr 0) \<noteq> None" for n
    by (simp add: example_cfg_def shouldRecycle_def time_sub_def)
  then have on: "\<not> (\<forall>c start now rss. shouldRecycle (example_cfg\<lparr>checkInterval := n\<rparr>) c start now rss = None)" for n
    by blast
  have bound: "maxLifetime (example_cfg\<lparr>checkInterval := n\<rparr>) < 2 ^ 63" for n
    by (simp add: example_cfg_def)
  have run: "recycler_run (Some (example_cfg\<lparr>checkInterval := n\<rparr>)) =
      (if n \<le> 0 then Inl (Panic NonPositiveTicker) else Inr True)" for n
    using recycler_run_correct [OF bound [of n]] unfolding if_not_P [OF on] by (auto simp: example_cfg_def)
  have same: "example_cfg\<lparr>checkInterval := 1\<rparr> = example_cfg" by (simp add: example_cfg_def)
  from run [of 0] run [of 1] show ?thesis unfolding same by simp
qed

end
