(* ===== verification/Command_Line.thy ===== *)
theory Command_Line
  imports Recycler Run_Function
begin

text \<open>
  \<open>main.go\<close>: what the process sets up before it serves. The flag parser \<open>kong\<close>, the logger and the
  gRPC server are libraries; the model ends with the arguments of \<open>function.Serve\<close>.
\<close>

section \<open>The flags\<close>



section \<open>Run\<close>







section \<open>Properties\<close>





end
