(* ===== verification/Deep_Copy.thy ===== *)
theory Deep_Copy
  imports KCL_Input
begin

text \<open>
  The deep copies of \<open>zz_generated.deepcopy.go\<close> over an explicit memory: slices, maps and pointers
  are addresses, and copying allocates. \<open>RawExtension.DeepCopyInto\<close> belongs to a library and is a
  parameter. The contract of a deep copy is the locale \<open>deep_copier\<close>: it keeps the memory that was
  there, and what it returns reads like the original from the new memory alone.
\<close>

section \<open>Memory\<close>

text \<open>A \<open>RawExtension\<close> is the address of its bytes, or nil; \<open>ptr_Base\<close> is a pointer to one.\<close>

type_synonym addr = nat

type_synonym raw_ref = "addr option"

record resource_ref =
  ptr_Name :: string
  ptr_Base :: "addr option"

datatype cell =
    Strings "string list"
  | Bytes string
  | RawCell raw_ref
  | ParamsCell "raw_ref gomap"
  | ResourceCells "resource_ref list"

record heap =
  mem :: "addr \<rightharpoonup> cell"
  fresh_addr :: addr

definition alloc :: "heap \<Rightarrow> cell \<Rightarrow> addr \<times> heap" where
  "alloc h c =
     (fresh_addr h, h\<lparr>mem := (mem h)(fresh_addr h \<mapsto> c), fresh_addr := fresh_addr h + 1\<rparr>)"

definition put_cell :: "heap \<Rightarrow> addr \<Rightarrow> cell \<Rightarrow> heap" where
  "put_cell h a c = h\<lparr>mem := (mem h)(a \<mapsto> c)\<rparr>"

record config_ref =
  ptr_Arguments :: "addr option"
  ptr_Settings :: "addr option"
  ptr_Overrides :: "addr option"
  ptr_PathSelectors :: "addr option"
  ref_Vendor :: bool
  ref_SortKeys :: bool
  ref_ShowHidden :: bool
  ref_DisableNone :: bool
  ref_Debug :: bool
  ref_StrictRangeCheck :: bool

record spec_ref =
  ref_Source :: string
  ref_Config :: config_ref
  ref_Credentials :: CredSpec
  ref_Dependencies :: string
  ptr_Params :: "addr option"
  ptr_Resources :: "addr option"
  ref_Target :: target

record input_ref =
  ref_APIVersion :: string
  ref_Kind :: string
  ref_Name :: string
  ref_Spec :: spec_ref

section \<open>Reading memory\<close>

fun the_strings :: "cell option \<Rightarrow> string list" where
  "the_strings (Some (Strings xs)) = xs"
| "the_strings _ = []"

fun the_bytes :: "cell option \<Rightarrow> string" where
  "the_bytes (Some (Bytes s)) = s"
| "the_bytes _ = []"

fun the_raw :: "cell option \<Rightarrow> raw_ref" where
  "the_raw (Some (RawCell r)) = r"
| "the_raw _ = None"

fun the_params :: "cell option \<Rightarrow> raw_ref gomap" where
  "the_params (Some (ParamsCell m)) = m"
| "the_params _ = []"

fun the_resources :: "cell option \<Rightarrow> resource_ref list" where
  "the_resources (Some (ResourceCells rs)) = rs"
| "the_resources _ = []"

definition view_strings :: "heap \<Rightarrow> addr option \<Rightarrow> string list" where
  "view_strings h p = (case p of None \<Rightarrow> [] | Some a \<Rightarrow> the_strings (mem h a))"

definition view_config :: "heap \<Rightarrow> config_ref \<Rightarrow> ConfigSpec" where
  "view_config h c =
     \<lparr>Arguments = view_strings h (ptr_Arguments c), Settings = view_strings h (ptr_Settings c),
      Overrides = view_strings h (ptr_Overrides c), PathSelectors = view_strings h (ptr_PathSelectors c),
      Vendor = ref_Vendor c, SortKeys = ref_SortKeys c, ShowHidden = ref_ShowHidden c,
      DisableNone = ref_DisableNone c, Debug = ref_Debug c, StrictRangeCheck = ref_StrictRangeCheck c\<rparr>"

definition view_raw :: "heap \<Rightarrow> raw_ref \<Rightarrow> RawExtension" where
  "view_raw h r = \<lparr>Raw = (case r of None \<Rightarrow> [] | Some a \<Rightarrow> the_bytes (mem h a))\<rparr>"

definition view_resource :: "heap \<Rightarrow> resource_ref \<Rightarrow> InputResource" where
  "view_resource h r =
     \<lparr>Name = ptr_Name r, Base = map_option (\<lambda>a. view_raw h (the_raw (mem h a))) (ptr_Base r)\<rparr>"

definition view_params :: "heap \<Rightarrow> addr option \<Rightarrow> RawExtension gomap option" where
  "view_params h p =
     map_option (\<lambda>a. map (\<lambda>e. (fst e, view_raw h (snd e))) (the_params (mem h a))) p"

definition view_resources :: "heap \<Rightarrow> addr option \<Rightarrow> InputResource list" where
  "view_resources h p =
     (case p of None \<Rightarrow> [] | Some a \<Rightarrow> map (view_resource h) (the_resources (mem h a)))"

definition view_spec :: "heap \<Rightarrow> spec_ref \<Rightarrow> RunSpec" where
  "view_spec h s =
     \<lparr>Source = ref_Source s, Config = view_config h (ref_Config s), Credentials = ref_Credentials s,
      Dependencies = ref_Dependencies s, Params = view_params h (ptr_Params s),
      spec_Resources = view_resources h (ptr_Resources s), Target = ref_Target s\<rparr>"

definition view_input :: "heap \<Rightarrow> input_ref \<Rightarrow> KCLInput" where
  "view_input h i =
     \<lparr>APIVersion = ref_APIVersion i, Kind = ref_Kind i, input_Name = ref_Name i,
      Spec = view_spec h (ref_Spec i)\<rparr>"

section \<open>The copies\<close>

text \<open>The three patterns of the generated code: a guard against nil, a new cell that is then filled
  from the old one, and a loop.\<close>

definition unless_nil :: "(heap \<Rightarrow> 'a \<Rightarrow> 'a \<times> heap) \<Rightarrow> heap \<Rightarrow> 'a option \<Rightarrow> 'a option \<times> heap" where
  "unless_nil copy h p =
     (case p of None \<Rightarrow> (None, h) | Some x \<Rightarrow> let (y, h') = copy h x in (Some y, h'))"

definition copy_new ::
  "('b \<Rightarrow> cell) \<Rightarrow> ('b \<Rightarrow> cell) \<Rightarrow> (cell option \<Rightarrow> 'b) \<Rightarrow> (heap \<Rightarrow> 'b \<Rightarrow> 'b \<times> heap) \<Rightarrow>
   heap \<Rightarrow> addr \<Rightarrow> addr \<times> heap"
where
  "copy_new zero filled content copy h a =
     (let x = content (mem h a); (b, h1) = alloc h (zero x); (y, h2) = copy h1 x
      in (b, put_cell h2 b (filled y)))"

primrec copy_each :: "(heap \<Rightarrow> 'a \<Rightarrow> 'a \<times> heap) \<Rightarrow> heap \<Rightarrow> 'a list \<Rightarrow> 'a list \<times> heap" where
  "copy_each copy h [] = ([], h)"
| "copy_each copy h (x # xs) =
     (let (y, h1) = copy h x; (ys, h2) = copy_each copy h1 xs in (y # ys, h2))"

definition copy_strings :: "heap \<Rightarrow> addr option \<Rightarrow> addr option \<times> heap" where
  "copy_strings =
     unless_nil (copy_new (\<lambda>xs. Strings (replicate (length xs) [])) Strings the_strings (\<lambda>h xs. (xs, h)))"

definition ConfigSpec_DeepCopyInto :: "heap \<Rightarrow> config_ref \<Rightarrow> config_ref \<times> heap" where
  "ConfigSpec_DeepCopyInto h c =
     (let (arguments, h1) = copy_strings h (ptr_Arguments c);
          (settings, h2) = copy_strings h1 (ptr_Settings c);
          (overrides, h3) = copy_strings h2 (ptr_Overrides c);
          (selectors, h4) = copy_strings h3 (ptr_PathSelectors c)
      in (c\<lparr>ptr_Arguments := arguments, ptr_Settings := settings, ptr_Overrides := overrides,
            ptr_PathSelectors := selectors\<rparr>, h4))"

definition Resource_DeepCopyInto ::
  "(heap \<Rightarrow> raw_ref \<Rightarrow> raw_ref \<times> heap) \<Rightarrow> heap \<Rightarrow> resource_ref \<Rightarrow> resource_ref \<times> heap"
where
  "Resource_DeepCopyInto copy_raw h r =
     (let (base, h') = unless_nil (copy_new (\<lambda>_. RawCell None) RawCell the_raw copy_raw) h (ptr_Base r)
      in (r\<lparr>ptr_Base := base\<rparr>, h'))"

definition ResourceList_DeepCopyInto ::
  "(heap \<Rightarrow> raw_ref \<Rightarrow> raw_ref \<times> heap) \<Rightarrow> heap \<Rightarrow> addr \<Rightarrow> addr \<times> heap"
where
  "ResourceList_DeepCopyInto copy_raw =
     copy_new (\<lambda>rs. ResourceCells (replicate (length rs) \<lparr>ptr_Name = [], ptr_Base = None\<rparr>))
       ResourceCells the_resources (copy_each (Resource_DeepCopyInto copy_raw))"

text \<open>A value of the parameter map is copied to a new \<open>RawExtension\<close>, which is then stored by value.\<close>

definition copy_param ::
  "(heap \<Rightarrow> raw_ref \<Rightarrow> raw_ref \<times> heap) \<Rightarrow> heap \<Rightarrow> string \<times> raw_ref \<Rightarrow> (string \<times> raw_ref) \<times> heap"
where
  "copy_param copy_raw h e = (let (v, h') = copy_raw h (snd e) in ((fst e, v), h'))"

definition copy_params ::
  "(heap \<Rightarrow> raw_ref \<Rightarrow> raw_ref \<times> heap) \<Rightarrow> heap \<Rightarrow> addr \<Rightarrow> addr \<times> heap"
where
  "copy_params copy_raw =
     copy_new (\<lambda>_. ParamsCell []) ParamsCell the_params (copy_each (copy_param copy_raw))"

definition RunSpec_DeepCopyInto ::
  "(heap \<Rightarrow> raw_ref \<Rightarrow> raw_ref \<times> heap) \<Rightarrow> heap \<Rightarrow> spec_ref \<Rightarrow> spec_ref \<times> heap"
where
  "RunSpec_DeepCopyInto copy_raw h s =
     (let (config, h1) = ConfigSpec_DeepCopyInto h (ref_Config s);
          (params, h2) = unless_nil (copy_params copy_raw) h1 (ptr_Params s);
          (resources, h3) = unless_nil (ResourceList_DeepCopyInto copy_raw) h2 (ptr_Resources s)
      in (s\<lparr>ref_Config := config, ptr_Params := params, ptr_Resources := resources\<rparr>, h3))"

definition KCLInput_DeepCopyInto ::
  "(heap \<Rightarrow> raw_ref \<Rightarrow> raw_ref \<times> heap) \<Rightarrow> heap \<Rightarrow> input_ref \<Rightarrow> input_ref \<times> heap"
where
  "KCLInput_DeepCopyInto copy_raw h i =
     (let (spec, h') = RunSpec_DeepCopyInto copy_raw h (ref_Spec i) in (i\<lparr>ref_Spec := spec\<rparr>, h'))"

definition CredSpec_DeepCopyInto :: "heap \<Rightarrow> CredSpec \<Rightarrow> CredSpec \<times> heap" where
  "CredSpec_DeepCopyInto h c = (c, h)"

text \<open>\<open>DeepCopy\<close> of each type: nil for nil, and otherwise \<open>DeepCopyInto\<close> a new value.\<close>

definition ConfigSpec_DeepCopy :: "heap \<Rightarrow> config_ref option \<Rightarrow> config_ref option \<times> heap" where
  "ConfigSpec_DeepCopy = unless_nil ConfigSpec_DeepCopyInto"

definition CredSpec_DeepCopy :: "heap \<Rightarrow> CredSpec option \<Rightarrow> CredSpec option \<times> heap" where
  "CredSpec_DeepCopy = unless_nil CredSpec_DeepCopyInto"

definition Resource_DeepCopy ::
  "(heap \<Rightarrow> raw_ref \<Rightarrow> raw_ref \<times> heap) \<Rightarrow> heap \<Rightarrow> resource_ref option \<Rightarrow> resource_ref option \<times> heap"
where
  "Resource_DeepCopy copy_raw = unless_nil (Resource_DeepCopyInto copy_raw)"

definition ResourceList_DeepCopy ::
  "(heap \<Rightarrow> raw_ref \<Rightarrow> raw_ref \<times> heap) \<Rightarrow> heap \<Rightarrow> addr option \<Rightarrow> addr option \<times> heap"
where
  "ResourceList_DeepCopy copy_raw = unless_nil (ResourceList_DeepCopyInto copy_raw)"

definition RunSpec_DeepCopy ::
  "(heap \<Rightarrow> raw_ref \<Rightarrow> raw_ref \<times> heap) \<Rightarrow> heap \<Rightarrow> spec_ref option \<Rightarrow> spec_ref option \<times> heap"
where
  "RunSpec_DeepCopy copy_raw = unless_nil (RunSpec_DeepCopyInto copy_raw)"

definition KCLInput_DeepCopy ::
  "(heap \<Rightarrow> raw_ref \<Rightarrow> raw_ref \<times> heap) \<Rightarrow> heap \<Rightarrow> input_ref option \<Rightarrow> input_ref option \<times> heap"
where
  "KCLInput_DeepCopy copy_raw = unless_nil (KCLInput_DeepCopyInto copy_raw)"

text \<open>As an object: a nil copy becomes the nil interface.\<close>

definition KCLInput_DeepCopyObject ::
  "(heap \<Rightarrow> raw_ref \<Rightarrow> raw_ref \<times> heap) \<Rightarrow> heap \<Rightarrow> input_ref option \<Rightarrow> input_ref option \<times> heap"
where
  "KCLInput_DeepCopyObject copy_raw h p =
     (let (c, h') = KCLInput_DeepCopy copy_raw h p in case c of Some x \<Rightarrow> (Some x, h') | None \<Rightarrow> (None, h'))"

section \<open>The contract\<close>

text \<open>\<open>h2\<close> agrees with \<open>h\<close> on the addresses from \<open>lo\<close> to before \<open>hi\<close>.\<close>

definition agree :: "addr \<Rightarrow> addr \<Rightarrow> heap \<Rightarrow> heap \<Rightarrow> bool" where
  "agree lo hi h h2 \<longleftrightarrow> (\<forall>a. lo \<le> a \<and> a < hi \<longrightarrow> mem h2 a = mem h a)"

lemma agreeD: "agree lo hi h h2 \<Longrightarrow> lo \<le> a \<Longrightarrow> a < hi \<Longrightarrow> mem h2 a = mem h a"
  by (simp add: agree_def)

lemma agree_sub: "agree lo hi h h2 \<Longrightarrow> lo \<le> lo' \<Longrightarrow> hi' \<le> hi \<Longrightarrow> agree lo' hi' h h2"
  by (simp add: agree_def)

lemma agree_trans: "agree lo hi h h1 \<Longrightarrow> agree lo hi h1 h2 \<Longrightarrow> agree lo hi h h2"
  by (simp add: agree_def)

lemma agree_refl [simp]: "agree lo hi h h"
  by (simp add: agree_def)

text \<open>\<open>valid\<close> says that everything reachable lies in allocated memory.\<close>

locale deep_copier =
  fixes copy :: "heap \<Rightarrow> 'r \<Rightarrow> 'r \<times> heap" and view :: "heap \<Rightarrow> 'r \<Rightarrow> 'v"
    and valid :: "heap \<Rightarrow> 'r \<Rightarrow> bool"
  assumes reads_allocated: "valid h x \<Longrightarrow> fresh_addr h \<le> fresh_addr h2 \<Longrightarrow>
      agree 0 (fresh_addr h) h h2 \<Longrightarrow> valid h2 x \<and> view h2 x = view h x"
    and keeps_memory: "valid h x \<Longrightarrow> copy h x = (y, h') \<Longrightarrow>
      fresh_addr h \<le> fresh_addr h' \<and> agree 0 (fresh_addr h) h h'"
    and copies: "valid h x \<Longrightarrow> copy h x = (y, h') \<Longrightarrow>
      agree (fresh_addr h) (fresh_addr h') h' h2 \<Longrightarrow> view h2 y = view h x"
begin

lemma independent:
  assumes "valid h x" and "copy h x = (y, h')"
  shows "view h' y = view h x"
    and "view h' x = view h x"
    and "agree (fresh_addr h) (fresh_addr h') h' h2 \<Longrightarrow> view h2 y = view h x"
    and "fresh_addr h \<le> fresh_addr h2 \<Longrightarrow> agree 0 (fresh_addr h) h' h2 \<Longrightarrow> view h2 x = view h x"
proof -
  note k = keeps_memory [OF assms]
  show "view h' y = view h x" using copies [OF assms agree_refl] .
  show "view h' x = view h x" using reads_allocated [OF assms(1)] k by blast
  show "agree (fresh_addr h) (fresh_addr h') h' h2 \<Longrightarrow> view h2 y = view h x"
    by (rule copies [OF assms])
  assume "fresh_addr h \<le> fresh_addr h2" and "agree 0 (fresh_addr h) h' h2"
  then show "view h2 x = view h x"
    using reads_allocated [OF assms(1)] k agree_trans by blast
qed

end

section \<open>Contracts of the patterns\<close>

lemma copier_value: "deep_copier (\<lambda>h x. (x, h)) (\<lambda>h x. f x) (\<lambda>h x. True)"
  by unfold_locales auto

lemma copier_nil:
  assumes "deep_copier copy view valid"
  shows "deep_copier (unless_nil copy) (\<lambda>h p. map_option (view h) p)
    (\<lambda>h p. case p of None \<Rightarrow> True | Some x \<Rightarrow> valid h x)"
proof unfold_locales
  fix h h2 p assume "case p of None \<Rightarrow> True | Some x \<Rightarrow> valid h x" "fresh_addr h \<le> fresh_addr h2"
    "agree 0 (fresh_addr h) h h2"
  then show "(case p of None \<Rightarrow> True | Some x \<Rightarrow> valid h2 x) \<and>
      map_option (view h2) p = map_option (view h) p"
    using deep_copier.reads_allocated [OF assms, of h "the p" h2] by (cases p) simp_all
next
  fix h p q h' assume p: "case p of None \<Rightarrow> True | Some x \<Rightarrow> valid h x" and run: "unless_nil copy h p = (q, h')"
  show "fresh_addr h \<le> fresh_addr h' \<and> agree 0 (fresh_addr h) h h'"
    using p run deep_copier.keeps_memory [OF assms]
    by (cases p) (auto simp: unless_nil_def split: prod.splits)
  fix h2 assume "agree (fresh_addr h) (fresh_addr h') h' h2"
  then show "map_option (view h2) q = map_option (view h) p"
    using p run deep_copier.copies [OF assms]
    by (cases p) (auto simp: unless_nil_def split: prod.splits)
qed

lemma copier_pair:
  assumes "deep_copier c1 v1 p1" and "deep_copier c2 v2 p2"
  shows "deep_copier (\<lambda>h x. let (y1, h1) = c1 h (fst x); (y2, h2) = c2 h1 (snd x) in ((y1, y2), h2))
    (\<lambda>h x. (v1 h (fst x), v2 h (snd x))) (\<lambda>h x. p1 h (fst x) \<and> p2 h (snd x))"
proof unfold_locales
  fix h h2 and x :: "'a \<times> 'c"
  assume "p1 h (fst x) \<and> p2 h (snd x)" "fresh_addr h \<le> fresh_addr h2" "agree 0 (fresh_addr h) h h2"
  then show "(p1 h2 (fst x) \<and> p2 h2 (snd x)) \<and> (v1 h2 (fst x), v2 h2 (snd x)) = (v1 h (fst x), v2 h (snd x))"
    using deep_copier.reads_allocated [OF assms(1)] deep_copier.reads_allocated [OF assms(2)] by blast
next
  fix h h' and x y :: "'a \<times> 'c"
  assume p: "p1 h (fst x) \<and> p2 h (snd x)"
    and run: "(let (y1, h1) = c1 h (fst x); (y2, h2) = c2 h1 (snd x) in ((y1, y2), h2)) = (y, h')"
  obtain y1 h1 where 1: "c1 h (fst x) = (y1, h1)" by fastforce
  obtain y2 where 2: "c2 h1 (snd x) = (y2, h')" and y: "y = (y1, y2)"
    using run 1 by (auto split: prod.splits)
  note k1 = deep_copier.keeps_memory [OF assms(1) p [THEN conjunct1] 1]
  have p2: "p2 h1 (snd x)" and same: "v2 h1 (snd x) = v2 h (snd x)"
    using deep_copier.reads_allocated [OF assms(2) p [THEN conjunct2], of h1] k1 by simp_all
  note k2 = deep_copier.keeps_memory [OF assms(2) p2 2]
  show "fresh_addr h \<le> fresh_addr h' \<and> agree 0 (fresh_addr h) h h'"
    using k1 k2 by (auto simp: agree_def)
  fix h2 assume a: "agree (fresh_addr h) (fresh_addr h') h' h2"
  have "agree (fresh_addr h) (fresh_addr h1) h1 h2"
    using a k1 k2 by (auto simp: agree_def)
  then have "v1 h2 y1 = v1 h (fst x)"
    using deep_copier.copies [OF assms(1) p [THEN conjunct1] 1] by blast
  moreover have "v2 h2 y2 = v2 h (snd x)"
    using deep_copier.copies [OF assms(2) p2 2] a k1 same by (simp add: agree_sub)
  ultimately show "(v1 h2 (fst y), v2 h2 (snd y)) = (v1 h (fst x), v2 h (snd x))" by (simp add: y)
qed

text \<open>A struct whose pointers are copied as \<open>part\<close> and put back by \<open>with_part\<close>.\<close>

lemma copier_struct:
  assumes "deep_copier c v p"
    and "\<And>h x. view h x = build x (v h (part x))"
    and "\<And>h x y. view h (with_part y x) = build x (v h y)"
    and "\<And>h x. valid h x = p h (part x)"
    and "\<And>h x. copy h x = (let (y, h') = c h (part x) in (with_part y x, h'))"
  shows "deep_copier copy view valid"
proof unfold_locales
  fix h h2 x assume "valid h x" "fresh_addr h \<le> fresh_addr h2" "agree 0 (fresh_addr h) h h2"
  then show "valid h2 x \<and> view h2 x = view h x"
    using deep_copier.reads_allocated [OF assms(1)] by (metis assms(2,4))
next
  fix h x y h' assume x: "valid h x" "copy h x = (y, h')"
  obtain z h1 where z: "c h (part x) = (z, h1)" by fastforce
  with x have y: "y = with_part z x" "h' = h1" "p h (part x)" by (simp_all add: assms(4,5))
  show "fresh_addr h \<le> fresh_addr h' \<and> agree 0 (fresh_addr h) h h'"
    using deep_copier.keeps_memory [OF assms(1) y(3) z] y(2) by simp
  fix h2 assume "agree (fresh_addr h) (fresh_addr h') h' h2"
  then show "view h2 y = view h x"
    using deep_copier.copies [OF assms(1) y(3) z] by (simp only: y(1,2) assms(3) assms(2) [of h x])
qed

lemma copier_new:
  assumes "deep_copier c v p" and "\<And>y. content (Some (filled y)) = y"
  shows "deep_copier (copy_new zero filled content c) (\<lambda>h a. v h (content (mem h a)))
    (\<lambda>h a. a < fresh_addr h \<and> p h (content (mem h a)))"
proof unfold_locales
  fix h h2 a
  assume "a < fresh_addr h \<and> p h (content (mem h a))" "fresh_addr h \<le> fresh_addr h2"
    "agree 0 (fresh_addr h) h h2"
  then show "(a < fresh_addr h2 \<and> p h2 (content (mem h2 a))) \<and>
      v h2 (content (mem h2 a)) = v h (content (mem h a))"
    using deep_copier.reads_allocated [OF assms(1)] by (auto simp: agreeD)
next
  fix h a b h' assume a: "a < fresh_addr h \<and> p h (content (mem h a))"
    and run: "copy_new zero filled content c h a = (b, h')"
  let ?x = "content (mem h a)"
  let ?h1 = "h\<lparr>mem := (mem h)(fresh_addr h \<mapsto> zero ?x), fresh_addr := fresh_addr h + 1\<rparr>"
  obtain y h2 where y: "c ?h1 ?x = (y, h2)" by fastforce
  have b: "b = fresh_addr h" and h': "h' = put_cell h2 b (filled y)"
    using run y by (auto simp: copy_new_def alloc_def Let_def)
  have "agree 0 (fresh_addr h) h ?h1" by (simp add: agree_def)
  then have p: "p ?h1 ?x" and same: "v ?h1 ?x = v h ?x"
    using deep_copier.reads_allocated [OF assms(1) a [THEN conjunct2], of ?h1] by simp_all
  note k = deep_copier.keeps_memory [OF assms(1) p y]
  show "fresh_addr h \<le> fresh_addr h' \<and> agree 0 (fresh_addr h) h h'"
    using k by (auto simp: h' b put_cell_def agree_def)
  fix h3 assume h3: "agree (fresh_addr h) (fresh_addr h') h' h3"
  have "mem h3 b = Some (filled y)"
    using agreeD [OF h3, of b] k by (simp add: h' b put_cell_def)
  moreover have "agree (fresh_addr ?h1) (fresh_addr h2) h2 h3"
    using h3 by (auto simp: h' b put_cell_def agree_def)
  then have "v h3 y = v ?h1 ?x" using deep_copier.copies [OF assms(1) p y] by blast
  ultimately show "v h3 (content (mem h3 b)) = v h (content (mem h a))"
    using same by (simp add: assms(2))
qed

lemma copier_view: "deep_copier c v p \<Longrightarrow> deep_copier c (\<lambda>h x. f (v h x)) p"
  by (rule copier_struct [where part = "\<lambda>x. x" and with_part = "\<lambda>y x. y" and build = "\<lambda>x. f"]) simp_all

lemma copier_each:
  assumes "deep_copier c v p"
  shows "deep_copier (copy_each c) (\<lambda>h xs. map (v h) xs) (\<lambda>h xs. \<forall>x \<in> set xs. p h x)"
proof unfold_locales
  fix h h2 and xs :: "'a list"
  assume "\<forall>x \<in> set xs. p h x" "fresh_addr h \<le> fresh_addr h2" "agree 0 (fresh_addr h) h h2"
  then show "(\<forall>x \<in> set xs. p h2 x) \<and> map (v h2) xs = map (v h) xs"
    using deep_copier.reads_allocated [OF assms, of h _ h2] by simp
next
  have both: "(fresh_addr h \<le> fresh_addr h' \<and> agree 0 (fresh_addr h) h h') \<and>
      (\<forall>h2. agree (fresh_addr h) (fresh_addr h') h' h2 \<longrightarrow> map (v h2) ys = map (v h) xs)"
    if "\<forall>x \<in> set xs. p h x" "copy_each c h xs = (ys, h')" for h h' xs ys
    using that
  proof (induction xs arbitrary: h ys)
    case (Cons x xs)
    obtain y h1 where 1: "c h x = (y, h1)" by fastforce
    obtain zs where 2: "copy_each c h1 xs = (zs, h')" and ys: "ys = y # zs"
      using Cons.prems(2) 1 by (auto split: prod.splits)
    have x: "p h x" using Cons.prems(1) by simp
    note k1 = deep_copier.keeps_memory [OF assms x 1]
    have rest: "p h1 z" and same: "v h1 z = v h z" if "z \<in> set xs" for z
      using deep_copier.reads_allocated [OF assms, of h z h1] k1 Cons.prems(1) that by simp_all
    from rest have "\<forall>z \<in> set xs. p h1 z" by blast
    note IH = Cons.IH [OF this 2]
    have "map (v h2) ys = map (v h) (x # xs)" if a: "agree (fresh_addr h) (fresh_addr h') h' h2" for h2
    proof -
      have "agree (fresh_addr h) (fresh_addr h1) h1 h2" using a k1 IH by (auto simp: agree_def)
      then have "v h2 y = v h x" using deep_copier.copies [OF assms x 1] by blast
      moreover have "map (v h2) zs = map (v h1) xs" using IH a k1 by (simp add: agree_sub)
      moreover have "map (v h1) xs = map (v h) xs" using same by simp
      ultimately show ?thesis by (simp add: ys)
    qed
    moreover have "fresh_addr h \<le> fresh_addr h' \<and> agree 0 (fresh_addr h) h h'"
      using k1 IH by (auto simp: agree_def)
    ultimately show ?case by blast
  qed simp
  fix h h' and xs ys :: "'a list" assume xs: "\<forall>x \<in> set xs. p h x" "copy_each c h xs = (ys, h')"
  from both [OF xs] show "fresh_addr h \<le> fresh_addr h' \<and> agree 0 (fresh_addr h) h h'" by blast
  fix h2 assume "agree (fresh_addr h) (fresh_addr h') h' h2"
  with both [OF xs] show "map (v h2) ys = map (v h) xs" by blast
qed

section \<open>The providers\<close>

definition valid_strings :: "heap \<Rightarrow> addr option \<Rightarrow> bool" where
  "valid_strings h p \<longleftrightarrow> (case p of None \<Rightarrow> True | Some a \<Rightarrow> a < fresh_addr h)"

definition valid_config :: "heap \<Rightarrow> config_ref \<Rightarrow> bool" where
  "valid_config h c \<longleftrightarrow> valid_strings h (ptr_Arguments c) \<and> valid_strings h (ptr_Settings c) \<and>
     valid_strings h (ptr_Overrides c) \<and> valid_strings h (ptr_PathSelectors c)"

definition valid_raw :: "heap \<Rightarrow> raw_ref \<Rightarrow> bool" where
  "valid_raw h r \<longleftrightarrow> (case r of None \<Rightarrow> True | Some a \<Rightarrow> a < fresh_addr h)"

definition valid_resource :: "heap \<Rightarrow> resource_ref \<Rightarrow> bool" where
  "valid_resource h r \<longleftrightarrow>
     (case ptr_Base r of None \<Rightarrow> True | Some a \<Rightarrow> a < fresh_addr h \<and> valid_raw h (the_raw (mem h a)))"

definition valid_params :: "heap \<Rightarrow> addr option \<Rightarrow> bool" where
  "valid_params h p \<longleftrightarrow>
     (case p of None \<Rightarrow> True
      | Some a \<Rightarrow> a < fresh_addr h \<and> (\<forall>e \<in> set (the_params (mem h a)). valid_raw h (snd e)))"

definition valid_resources :: "heap \<Rightarrow> addr option \<Rightarrow> bool" where
  "valid_resources h p \<longleftrightarrow>
     (case p of None \<Rightarrow> True
      | Some a \<Rightarrow> a < fresh_addr h \<and> (\<forall>r \<in> set (the_resources (mem h a)). valid_resource h r))"

definition valid_input :: "heap \<Rightarrow> input_ref \<Rightarrow> bool" where
  "valid_input h i \<longleftrightarrow> valid_config h (ref_Config (ref_Spec i)) \<and>
     valid_params h (ptr_Params (ref_Spec i)) \<and> valid_resources h (ptr_Resources (ref_Spec i))"

lemma strings_copier: "deep_copier copy_strings view_strings valid_strings"
proof -
  have "deep_copier copy_strings
      (\<lambda>h p. case map_option (\<lambda>a. the_strings (mem h a)) p of None \<Rightarrow> [] | Some xs \<Rightarrow> xs)
      (\<lambda>h p. case p of None \<Rightarrow> True | Some a \<Rightarrow> a < fresh_addr h \<and> True)"
    unfolding copy_strings_def
    by (rule copier_view [OF copier_nil [OF copier_new [OF copier_value [of "\<lambda>xs. xs"]]]]) simp
  moreover have "view_strings =
      (\<lambda>h p. case map_option (\<lambda>a. the_strings (mem h a)) p of None \<Rightarrow> [] | Some xs \<Rightarrow> xs)"
    by (auto simp: fun_eq_iff view_strings_def split: option.split)
  moreover have "valid_strings = (\<lambda>h p. case p of None \<Rightarrow> True | Some a \<Rightarrow> a < fresh_addr h \<and> True)"
    by (auto simp: fun_eq_iff valid_strings_def)
  ultimately show ?thesis by simp
qed

interpretation strings: deep_copier copy_strings view_strings valid_strings
  by (rule strings_copier)

lemma config_copier: "deep_copier ConfigSpec_DeepCopyInto view_config valid_config"
proof (rule copier_struct [OF copier_pair [OF strings_copier copier_pair [OF strings_copier
        copier_pair [OF strings_copier strings_copier]]],
      where part = "\<lambda>c. (ptr_Arguments c, ptr_Settings c, ptr_Overrides c, ptr_PathSelectors c)"
      and with_part = "\<lambda>(a, s, o', p) c. c\<lparr>ptr_Arguments := a, ptr_Settings := s, ptr_Overrides := o',
        ptr_PathSelectors := p\<rparr>"
      and build = "\<lambda>c (a, s, o', p). \<lparr>Arguments = a, Settings = s, Overrides = o', PathSelectors = p,
        Vendor = ref_Vendor c, SortKeys = ref_SortKeys c, ShowHidden = ref_ShowHidden c,
        DisableNone = ref_DisableNone c, Debug = ref_Debug c, StrictRangeCheck = ref_StrictRangeCheck c\<rparr>"])
qed (auto simp: view_config_def valid_config_def ConfigSpec_DeepCopyInto_def split: prod.splits)

interpretation config: deep_copier ConfigSpec_DeepCopyInto view_config valid_config
  by (rule config_copier)

text \<open>The others rest on the library's copy of a \<open>RawExtension\<close>, of which they need the contract.\<close>

lemma resource_copier:
  assumes "deep_copier copy_raw view_raw valid_raw"
  shows "deep_copier (Resource_DeepCopyInto copy_raw) view_resource valid_resource"
proof (rule copier_struct [OF copier_nil [OF copier_new [OF assms, where content = the_raw and filled = RawCell]],
      where part = ptr_Base and with_part = "\<lambda>b r. r\<lparr>ptr_Base := b\<rparr>"
      and build = "\<lambda>r b. \<lparr>Name = ptr_Name r, Base = b\<rparr>"])
qed (auto simp: view_resource_def valid_resource_def Resource_DeepCopyInto_def)

lemma param_copier:
  assumes "deep_copier copy_raw view_raw valid_raw"
  shows "deep_copier (copy_param copy_raw) (\<lambda>h e. (fst e, view_raw h (snd e))) (\<lambda>h e. valid_raw h (snd e))"
  by (rule copier_struct [OF assms, where part = snd and with_part = "\<lambda>v e. (fst e, v)"
        and build = "\<lambda>e v. (fst e, v)"]) (auto simp: copy_param_def)

lemma params_copier:
  assumes "deep_copier copy_raw view_raw valid_raw"
  shows "deep_copier (unless_nil (copy_params copy_raw)) view_params valid_params"
proof -
  have "deep_copier (unless_nil (copy_params copy_raw))
      (\<lambda>h p. map_option (\<lambda>a. map (\<lambda>e. (fst e, view_raw h (snd e))) (the_params (mem h a))) p)
      (\<lambda>h p. case p of None \<Rightarrow> True
        | Some a \<Rightarrow> a < fresh_addr h \<and> (\<forall>e \<in> set (the_params (mem h a)). valid_raw h (snd e)))"
    unfolding copy_params_def
    by (rule copier_nil [OF copier_new [OF copier_each [OF param_copier [OF assms]]]]) simp
  then show ?thesis by (simp add: view_params_def [abs_def] valid_params_def [abs_def])
qed

lemma resources_copier:
  assumes "deep_copier copy_raw view_raw valid_raw"
  shows "deep_copier (unless_nil (ResourceList_DeepCopyInto copy_raw)) view_resources valid_resources"
proof -
  have "deep_copier (unless_nil (ResourceList_DeepCopyInto copy_raw))
      (\<lambda>h p. case map_option (\<lambda>a. map (view_resource h) (the_resources (mem h a))) p of
         None \<Rightarrow> [] | Some rs \<Rightarrow> rs)
      (\<lambda>h p. case p of None \<Rightarrow> True
        | Some a \<Rightarrow> a < fresh_addr h \<and> (\<forall>r \<in> set (the_resources (mem h a)). valid_resource h r))"
    unfolding ResourceList_DeepCopyInto_def
    by (rule copier_view [OF copier_nil [OF copier_new [OF copier_each [OF resource_copier [OF assms]]]]]) simp
  moreover have "view_resources = (\<lambda>h p. case map_option (\<lambda>a. map (view_resource h) (the_resources (mem h a))) p of
         None \<Rightarrow> [] | Some rs \<Rightarrow> rs)"
    by (auto simp: fun_eq_iff view_resources_def split: option.split)
  ultimately show ?thesis by (simp add: valid_resources_def [abs_def])
qed

lemma input_copier:
  assumes "deep_copier copy_raw view_raw valid_raw"
  shows "deep_copier (KCLInput_DeepCopyInto copy_raw) view_input valid_input"
proof (rule copier_struct [OF copier_pair [OF config_copier copier_pair [OF params_copier [OF assms]
        resources_copier [OF assms]]],
      where part = "\<lambda>i. (ref_Config (ref_Spec i), ptr_Params (ref_Spec i), ptr_Resources (ref_Spec i))"
      and with_part = "\<lambda>(c, p, r) i. i\<lparr>ref_Spec := (ref_Spec i)\<lparr>ref_Config := c, ptr_Params := p,
        ptr_Resources := r\<rparr>\<rparr>"
      and build = "\<lambda>i (c, p, r). \<lparr>APIVersion = ref_APIVersion i, Kind = ref_Kind i,
        input_Name = ref_Name i, Spec = \<lparr>Source = ref_Source (ref_Spec i), Config = c,
        Credentials = ref_Credentials (ref_Spec i), Dependencies = ref_Dependencies (ref_Spec i),
        Params = p, spec_Resources = r, Target = ref_Target (ref_Spec i)\<rparr>\<rparr>"])
qed (auto simp: view_input_def view_spec_def valid_input_def KCLInput_DeepCopyInto_def
      RunSpec_DeepCopyInto_def split: prod.splits)

section \<open>Properties\<close>

text \<open>C38: the deep copy of an input shares no memory with it: the copy reads as the same input, the
  original still does, and they stay so under any later change, of the copy as long as only memory
  is written that was there before, and of the original as long as only memory is written that the
  copy brought or that came later. All the library's copy of a raw extension has to give is the same.\<close>

theorem DeepCopy_independent:
  assumes "deep_copier copy_raw view_raw valid_raw" and "valid_input h i"
    and "KCLInput_DeepCopy copy_raw h (Some i) = (c, h')"
  shows "\<exists>i'. c = Some i' \<and> view_input h' i' = view_input h i \<and> view_input h' i = view_input h i \<and>
    (\<forall>h2. (\<forall>a. fresh_addr h \<le> a \<longrightarrow> mem h2 a = mem h' a) \<longrightarrow> view_input h2 i' = view_input h i) \<and>
    (\<forall>h2. fresh_addr h \<le> fresh_addr h2 \<and> (\<forall>a. a < fresh_addr h \<longrightarrow> mem h2 a = mem h' a) \<longrightarrow>
       view_input h2 i = view_input h i)"
proof -
  obtain i' where i': "c = Some i'" "KCLInput_DeepCopyInto copy_raw h i = (i', h')"
    using assms(3) by (auto simp: KCLInput_DeepCopy_def unless_nil_def split: prod.splits)
  note indep = deep_copier.independent [OF input_copier [OF assms(1)] assms(2) i'(2)]
  show ?thesis
    using i'(1) indep(1,2) indep(3,4) by (auto simp: agree_def)
qed

text \<open>A copy of the bytes, to run the model on.\<close>

definition example_copy_raw :: "heap \<Rightarrow> raw_ref \<Rightarrow> raw_ref \<times> heap" where
  "example_copy_raw = unless_nil (copy_new (\<lambda>_. Bytes []) Bytes the_bytes (\<lambda>h s. (s, h)))"

lemma example_copy_raw_contract: "deep_copier example_copy_raw view_raw valid_raw"
proof -
  have "deep_copier example_copy_raw
      (\<lambda>h p. case map_option (\<lambda>a. the_bytes (mem h a)) p of None \<Rightarrow> \<lparr>Raw = []\<rparr> | Some s \<Rightarrow> \<lparr>Raw = s\<rparr>)
      (\<lambda>h p. case p of None \<Rightarrow> True | Some a \<Rightarrow> a < fresh_addr h \<and> True)"
    unfolding example_copy_raw_def
    by (rule copier_view [OF copier_nil [OF copier_new [OF copier_value [of "\<lambda>s. s"]]]]) simp
  moreover have "view_raw =
      (\<lambda>h p. case map_option (\<lambda>a. the_bytes (mem h a)) p of None \<Rightarrow> \<lparr>Raw = []\<rparr> | Some s \<Rightarrow> \<lparr>Raw = s\<rparr>)"
    by (auto simp: fun_eq_iff view_raw_def split: option.split)
  moreover have "valid_raw = (\<lambda>h p. case p of None \<Rightarrow> True | Some a \<Rightarrow> a < fresh_addr h \<and> True)"
    by (auto simp: fun_eq_iff valid_raw_def)
  ultimately show ?thesis by simp
qed

definition example_heap :: heap where
  "example_heap = \<lparr>mem = [0 \<mapsto> Bytes ''{}'', 1 \<mapsto> RawCell (Some 0),
     2 \<mapsto> ResourceCells [\<lparr>ptr_Name = ''a'', ptr_Base = Some 1\<rparr>], 3 \<mapsto> Strings [''x'']], fresh_addr = 4\<rparr>"

definition example_input_ref :: input_ref where
  "example_input_ref = \<lparr>ref_APIVersion = [], ref_Kind = [], ref_Name = [], ref_Spec = \<lparr>ref_Source = ''s'',
     ref_Config = \<lparr>ptr_Arguments = Some 3, ptr_Settings = None, ptr_Overrides = None,
       ptr_PathSelectors = None, ref_Vendor = False, ref_SortKeys = False, ref_ShowHidden = False,
       ref_DisableNone = False, ref_Debug = False, ref_StrictRangeCheck = False\<rparr>,
     ref_Credentials = \<lparr>Url = [], Username = [], Password = []\<rparr>, ref_Dependencies = [],
     ptr_Params = None, ptr_Resources = Some 2, ref_Target = Default\<rparr>\<rparr>"

text \<open>Overwriting the bytes of the original leaves the base of the copy alone.\<close>

theorem DeepCopy_independent_witness:
  "\<exists>i' h'. KCLInput_DeepCopy example_copy_raw example_heap (Some example_input_ref) = (Some i', h') \<and>
     spec_Resources (Spec (view_input (put_cell h' 0 (Bytes ''[]'')) i')) =
       [\<lparr>Name = ''a'', Base = Some \<lparr>Raw = ''{}''\<rparr>\<rparr>]"
proof -
  obtain c h' where run: "KCLInput_DeepCopy example_copy_raw example_heap (Some example_input_ref) = (c, h')"
    by fastforce
  have valid: "valid_input example_heap example_input_ref"
    by (simp add: valid_input_def valid_config_def valid_strings_def valid_params_def valid_resources_def
        valid_resource_def valid_raw_def example_heap_def example_input_ref_def)
  from DeepCopy_independent [OF example_copy_raw_contract valid run] obtain i' where
    i': "c = Some i'" "\<forall>h2. (\<forall>a. fresh_addr example_heap \<le> a \<longrightarrow> mem h2 a = mem h' a) \<longrightarrow>
      view_input h2 i' = view_input example_heap example_input_ref" by blast
  then have "view_input (put_cell h' 0 (Bytes ''[]'')) i' = view_input example_heap example_input_ref"
    by (simp add: put_cell_def example_heap_def)
  moreover have "spec_Resources (Spec (view_input example_heap example_input_ref)) =
      [\<lparr>Name = ''a'', Base = Some \<lparr>Raw = ''{}''\<rparr>\<rparr>]"
    by (simp add: view_input_def view_spec_def view_resources_def view_resource_def view_raw_def
        example_heap_def example_input_ref_def)
  ultimately show ?thesis using run i'(1) by auto
qed

end
